theory Spec2Isabelle
  imports Main "HOL-Library.Sublist" "HOL-Library.Multiset"
begin

section \<open>Data model of the image gallery (script.js)\<close>

text \<open>
  JavaScript strings are modelled as \<^typ>\<open>string\<close>: a list of code units below 256
  (the Latin-1 range), which covers every string of the shipped catalog. Numbers that
  the script only uses as indices, counters and popularity scores are integers.
\<close>

text \<open>The field \<open>id\<close> of a record is written \<open>id'\<close>.\<close>

record image =
  id' :: string
  title :: string
  description :: string
  category :: string
  url :: string
  date :: string
  popularity :: int

definition mk :: "string \<Rightarrow> string \<Rightarrow> string \<Rightarrow> string \<Rightarrow> string \<Rightarrow> string \<Rightarrow> int \<Rightarrow> image" where
  "mk i t d c u dt p =
     \<lparr>id' = i, title = t, description = d, category = c, url = u, date = dt, popularity = p\<rparr>"

definition IMAGES :: "image list" where
  "IMAGES =
    [mk ''1'' ''Misty Forest'' ''Morning mist in evergreen forest.'' ''nature'' ''image/photo1.avif'' ''2024-11-05'' 80,
     mk ''2'' ''Desert Road'' ''Lonely road through sand dunes.'' ''travel'' ''image/photo2.avif'' ''2025-01-12'' 54,
     mk ''3'' ''City Sunrise'' ''Sunrise hitting skyscrapers.'' ''architecture'' ''image/photo3.avif'' ''2023-08-21'' 120,
     mk ''4'' ''Street Food Cart'' ''Spicy evening snacks.'' ''food'' ''image/photo4.avif'' ''2024-02-10'' 63,
     mk ''5'' ''Mountain Lake'' ''Crystal lake reflection.'' ''nature'' ''image/photo5.avif'' ''2025-03-03'' 145,
     mk ''6'' ''Vintage Train'' ''Old steam engine at station.'' ''travel'' ''image/photo6.avif'' ''2022-12-01'' 42,
     mk ''7'' ''Smiling Child'' ''Candid street portrait.'' ''people'' ''image/photo7.avif'' ''2024-06-18'' 99,
     mk ''8'' ''Blueberry Tart'' ''Fresh dessert close-up.'' ''food'' ''image/photo8.avif'' ''2025-05-02'' 77,
     mk ''9'' ''Old Bridge'' ''Historic stone bridge.'' ''architecture'' ''image/photo9.avif'' ''2023-10-10'' 58,
     mk ''10'' ''Coastal Cliffs'' ''Waves crash on cliffs.'' ''nature'' ''image/photo10.avif'' ''2025-07-08'' 200,
     mk ''11'' ''Neon Alley'' ''Nightlife in the city.'' ''travel'' ''image/photo11.avif'' ''2024-09-09'' 88,
     mk ''12'' ''Portrait in Window Light'' ''Soft natural light portrait.'' ''people'' ''image/photo12.avif'' ''2023-05-06'' 110,
     mk ''13'' ''Rooftop Cafe'' ''Coffee with city view.'' ''travel'' ''image/photo13.avif'' ''2025-02-14'' 67,
     mk ''14'' ''Autumn Path'' ''Leaves on a quiet path.'' ''nature'' ''image/photo14.avif'' ''2022-10-11'' 47,
     mk ''15'' ''Modern Lobby'' ''Minimal building lobby.'' ''architecture'' ''image/photo15.avif'' ''2025-06-25'' 33,
     mk ''16'' ''Festival Crowd'' ''Joyful packed crowd.'' ''people'' ''image/photo16.avif'' ''2024-12-30'' 95,
     mk ''17'' ''Pasta Delight'' ''Creamy pasta close-up.'' ''food'' ''image/photo17.avif'' ''2025-04-15'' 71,
     mk ''18'' ''Foggy Pier'' ''Pier vanishing into fog.'' ''travel'' ''image/photo18.avif'' ''2021-11-21'' 29,
     mk ''19'' ''Golden Fields'' ''Harvest fields at dusk.'' ''nature'' ''image/photo19.avif'' ''2024-08-30'' 60,
     mk ''20'' ''Glass Tower'' ''Reflections on glass facade.'' ''architecture'' ''image/photo20.avif'' ''2025-08-03'' 125]"

definition PAGE_SIZE :: nat where
  "PAGE_SIZE = 8"

definition slideshowDelay :: nat where
  "slideshowDelay = 3000"

text \<open>
  The DOM nodes the script writes to. A grid item keeps the record it shows, the absolute
  index its handlers close over, and which heart its favourite button displays
  (\<open>True\<close> for the solid \<open>fas fa-heart\<close>, \<open>False\<close> for the outline \<open>far fa-heart\<close>).
\<close>

record gallery_item =
  item_img :: image
  item_index :: nat
  item_solid :: bool

datatype gallery_node = Item gallery_item | NoImagesFound

datatype sidebar_node = Fav image | NoFavoritesYet

record app_state =
  \<comment> \<open>module-level variables\<close>
  currentPage :: nat
  filteredList :: "image list"
  activeCategory :: string
  favorites :: "string list"
  slideshowInterval :: "nat option"
  currentIndex :: int
  \<comment> \<open>form controls\<close>
  searchValue :: string
  sortValue :: string
  \<comment> \<open>rendered document\<close>
  gallery :: "gallery_node list"
  loadMoreShown :: bool
  spinnerShown :: bool
  lightboxActive :: bool
  lightboxImageSrc :: string
  lightboxImageAlt :: string
  lightboxTitle :: string
  lightboxDescription :: string
  imageCounter :: string
  favoriteBtnActive :: bool
  favoriteBtnSolid :: bool
  slideshowBtnActive :: bool
  slideshowBtnPause :: bool
  favoritesList :: "sidebar_node list"
  favoriteCount :: nat
  \<comment> \<open>browser environment\<close>
  localStorage :: "string \<rightharpoonup> string"
  timers :: "nat set"
  nextTimer :: nat

section \<open>JavaScript primitives used by the script\<close>

text \<open>\<open>xs[i]\<close>: \<open>undefined\<close> (here \<open>None\<close>) outside the array.\<close>

definition at_index :: "'a list \<Rightarrow> int \<Rightarrow> 'a option" where
  "at_index xs i = (if 0 \<le> i \<and> i < int (length xs) then Some (xs ! nat i) else None)"

text \<open>
  The remainder operator \<open>%\<close> truncates towards zero: the result has the sign of the
  dividend. It is only called with a non-zero divisor here.
\<close>

definition js_rem :: "int \<Rightarrow> int \<Rightarrow> int" where
  "js_rem a b = sgn a * (\<bar>a\<bar> mod \<bar>b\<bar>)"

text \<open>Decimal rendering of a non-negative integer inside a template literal.\<close>

fun show_nat :: "nat \<Rightarrow> string" where
  "show_nat n =
     (if n < 10 then [char_of (48 + n)] else show_nat (n div 10) @ [char_of (48 + n mod 10)])"

declare show_nat.simps [simp del]

section \<open>Lightbox\<close>

definition updateLightboxFavoriteIcon :: "app_state \<Rightarrow> app_state" where
  "updateLightboxFavoriteIcon s =
     (case at_index (filteredList s) (currentIndex s) of
        None \<Rightarrow> s
      | Some img \<Rightarrow>
          s\<lparr>favoriteBtnActive := (id' img \<in> set (favorites s)),
            favoriteBtnSolid := (id' img \<in> set (favorites s))\<rparr>)"

definition updateLightbox :: "app_state \<Rightarrow> app_state" where
  "updateLightbox s =
     (case at_index (filteredList s) (currentIndex s) of
        None \<Rightarrow> s
      | Some img \<Rightarrow>
          updateLightboxFavoriteIcon
            (s\<lparr>lightboxImageAlt := title img,
               lightboxTitle := title img,
               lightboxDescription := description img,
               imageCounter :=
                 show_nat (nat (currentIndex s + 1)) @ '' / '' @ show_nat (length (filteredList s)),
               lightboxImageSrc := url img\<rparr>))"

definition openLightbox :: "app_state \<Rightarrow> app_state" where
  "openLightbox s = (updateLightbox s)\<lparr>lightboxActive := True\<rparr>"

definition openLightboxByIndex :: "int \<Rightarrow> app_state \<Rightarrow> app_state" where
  "openLightboxByIndex indexAbsolute s =
     (if indexAbsolute < 0 \<or> indexAbsolute \<ge> int (length (filteredList s)) then s
      else openLightbox (s\<lparr>currentIndex := indexAbsolute\<rparr>))"

definition showPrev :: "app_state \<Rightarrow> app_state" where
  "showPrev s =
     (if length (filteredList s) = 0 then s
      else updateLightbox
             (s\<lparr>currentIndex :=
                  js_rem (currentIndex s - 1 + int (length (filteredList s)))
                         (int (length (filteredList s)))\<rparr>))"

definition showNext :: "app_state \<Rightarrow> app_state" where
  "showNext s =
     (if length (filteredList s) = 0 then s
      else updateLightbox
             (s\<lparr>currentIndex := js_rem (currentIndex s + 1) (int (length (filteredList s)))\<rparr>))"

section \<open>Filtering, searching, sorting\<close>

text \<open>
  \<open>String.prototype.trim\<close> strips white space and line terminators at both ends; below
  256 these are the code units 9 to 13, 32 and 160.
\<close>

definition is_white :: "char \<Rightarrow> bool" where
  "is_white c = (of_char c \<in> {9, 10, 11, 12, 13, 32, 160 :: nat})"

definition trim :: "string \<Rightarrow> string" where
  "trim s = rev (dropWhile is_white (rev (dropWhile is_white s)))"

text \<open>
  \<open>toLowerCase\<close>: below 256 the upper-case letters are A to Z and the range 192 to 222
  without the multiplication sign 215; each is 32 below its lower-case letter.
\<close>

definition lower_char :: "char \<Rightarrow> char" where
  "lower_char c =
     (let n = (of_char c :: nat)
      in if (65 \<le> n \<and> n \<le> 90) \<or> (192 \<le> n \<and> n \<le> 222 \<and> n \<noteq> 215)
         then char_of (n + 32) else c)"

definition toLowerCase :: "string \<Rightarrow> string" where
  "toLowerCase s = map lower_char s"

text \<open>\<open>s.includes(q)\<close>: \<open>q\<close> occurs in \<open>s\<close> as a contiguous run.\<close>

fun includes_str :: "string \<Rightarrow> string \<Rightarrow> bool" where
  "includes_str [] q = (q = [])"
| "includes_str (c # cs) q = (prefix q (c # cs) \<or> includes_str cs q)"

text \<open>
  \<open>new Date(s)\<close> for the date-only ISO form \<open>YYYY-MM-DD\<close> of the catalog: milliseconds
  since the epoch at midnight UTC. \<open>None\<close> stands for an invalid date, whose time value is
  \<open>NaN\<close>. Other date formats are outside this model; the theorems about date order
  assume dates of this form.
\<close>

definition digit_val :: "char \<Rightarrow> nat option" where
  "digit_val c =
     (let n = (of_char c :: nat) in if 48 \<le> n \<and> n \<le> 57 then Some (n - 48) else None)"

fun digits_val :: "nat \<Rightarrow> string \<Rightarrow> nat option" where
  "digits_val acc [] = Some acc"
| "digits_val acc (c # cs) =
     (case digit_val c of None \<Rightarrow> None | Some d \<Rightarrow> digits_val (10 * acc + d) cs)"

definition is_leap :: "nat \<Rightarrow> bool" where
  "is_leap y = (y mod 4 = 0 \<and> (y mod 100 \<noteq> 0 \<or> y mod 400 = 0))"

definition days_in_month :: "nat \<Rightarrow> nat \<Rightarrow> nat" where
  "days_in_month y m =
     (if m = 2 then (if is_leap y then 29 else 28)
      else if m = 4 \<or> m = 6 \<or> m = 9 \<or> m = 11 then 30 else 31)"

definition days_from_civil :: "nat \<Rightarrow> nat \<Rightarrow> nat \<Rightarrow> int" where
  "days_from_civil y m d =
     (let y' = (if m \<le> 2 then int y - 1 else int y);
          era = y' div 400;
          yoe = y' - era * 400;
          mp = (if m > 2 then int m - 3 else int m + 9);
          doy = (153 * mp + 2) div 5 + int d - 1;
          doe = yoe * 365 + yoe div 4 - yoe div 100 + doy
      in era * 146097 + doe - 719468)"

definition Date_parse :: "string \<Rightarrow> int option" where
  "Date_parse s =
     (if length s = 10 \<and> s ! 4 = CHR ''-'' \<and> s ! 7 = CHR ''-'' then
        (case (digits_val 0 (take 4 s), digits_val 0 (take 2 (drop 5 s)), digits_val 0 (drop 8 s)) of
           (Some y, Some m, Some d) \<Rightarrow>
             if 1 \<le> m \<and> m \<le> 12 \<and> 1 \<le> d \<and> d \<le> days_in_month y m
             then Some (days_from_civil y m d * 86400000) else None
         | _ \<Rightarrow> None)
      else None)"

text \<open>\<open>new Date(x) - new Date(y)\<close>; \<open>None\<close> is \<open>NaN\<close>.\<close>

definition date_minus :: "string \<Rightarrow> string \<Rightarrow> int option" where
  "date_minus x y =
     (case (Date_parse x, Date_parse y) of (Some a, Some b) \<Rightarrow> Some (a - b) | _ \<Rightarrow> None)"

text \<open>
  The comparator handed to \<open>filteredList.sort\<close>. \<open>localeCompare\<close> depends on the host's
  collation, so it is a parameter \<open>lc\<close> of the model.
\<close>

definition compareFn :: "(string \<Rightarrow> string \<Rightarrow> int) \<Rightarrow> string \<Rightarrow> image \<Rightarrow> image \<Rightarrow> int option" where
  "compareFn lc sortBy a b =
     (if sortBy = ''newest'' then date_minus (date b) (date a)
      else if sortBy = ''oldest'' then date_minus (date a) (date b)
      else if sortBy = ''popular'' then Some (popularity b - popularity a)
      else if sortBy = ''name'' then Some (lc (title a) (title b))
      else Some 0)"

text \<open>
  \<open>Array.prototype.sort\<close> is stable, and reads a comparator result of \<open>NaN\<close> as \<open>+0\<close>.
  For a consistent comparator the stable sorted arrangement is unique, so the method is
  modelled by stable insertion: an element moves right only past elements it compares
  greater than.
\<close>

definition SortCompare :: "('a \<Rightarrow> 'a \<Rightarrow> int option) \<Rightarrow> 'a \<Rightarrow> 'a \<Rightarrow> int" where
  "SortCompare cmp x y = (case cmp x y of None \<Rightarrow> 0 | Some v \<Rightarrow> v)"

fun insert_sorted :: "('a \<Rightarrow> 'a \<Rightarrow> int option) \<Rightarrow> 'a \<Rightarrow> 'a list \<Rightarrow> 'a list" where
  "insert_sorted cmp x [] = [x]"
| "insert_sorted cmp x (y # ys) =
     (if SortCompare cmp x y \<le> 0 then x # y # ys else y # insert_sorted cmp x ys)"

definition Array_sort :: "('a \<Rightarrow> 'a \<Rightarrow> int option) \<Rightarrow> 'a list \<Rightarrow> 'a list" where
  "Array_sort cmp xs = foldr (insert_sorted cmp) xs []"

text \<open>The predicate of \<open>IMAGES.filter\<close>, for the trimmed lower-case query.\<close>

definition matches :: "string \<Rightarrow> string \<Rightarrow> image \<Rightarrow> bool" where
  "matches cat query img =
     (let matchesCategory = (if cat = ''all'' then True else category img = cat);
          matchesSearch =
            (if query = [] then True
             else includes_str
                    (toLowerCase (title img @ '' '' @ description img @ '' '' @ category img))
                    query)
      in matchesCategory \<and> matchesSearch)"

text \<open>The catalog \<open>IMAGES\<close> is passed as \<open>imgs\<close> to the functions that read it.\<close>

definition applyFiltersSearchSort ::
  "image list \<Rightarrow> (string \<Rightarrow> string \<Rightarrow> int) \<Rightarrow> app_state \<Rightarrow> app_state" where
  "applyFiltersSearchSort imgs lc s =
     (let query = toLowerCase (trim (searchValue s));
          sortBy = sortValue s
      in s\<lparr>filteredList :=
             Array_sort (compareFn lc sortBy) (filter (matches (activeCategory s) query) imgs),
           currentPage := 0\<rparr>)"

section \<open>Rendering gallery pages\<close>

definition createGalleryItem :: "app_state \<Rightarrow> image \<Rightarrow> nat \<Rightarrow> gallery_node" where
  "createGalleryItem s img indexAbsolute =
     Item \<lparr>item_img = img, item_index = indexAbsolute,
           item_solid = (id' img \<in> set (favorites s))\<rparr>"

text \<open>\<open>xs.slice(start, end)\<close> for \<open>0 \<le> start \<le> end\<close>.\<close>

definition slice :: "nat \<Rightarrow> nat \<Rightarrow> 'a list \<Rightarrow> 'a list" where
  "slice start end' xs = take (end' - start) (drop start xs)"

text \<open>The slice of the filtered list that the next call of \<open>renderGalleryPage\<close> renders.\<close>

definition pageItems :: "app_state \<Rightarrow> image list" where
  "pageItems s =
     (let start = currentPage s * PAGE_SIZE;
          end' = start + PAGE_SIZE
      in slice start end' (filteredList s))"

definition renderGalleryPage :: "app_state \<Rightarrow> app_state" where
  "renderGalleryPage s =
     (let start = currentPage s * PAGE_SIZE;
          end' = start + PAGE_SIZE;
          appended =
            gallery s @
            map (\<lambda>(img, idx). createGalleryItem s img (start + idx))
                (zip (pageItems s) [0 ..< length (pageItems s)])
      in s\<lparr>spinnerShown := False,
           loadMoreShown := (end' < length (filteredList s)),
           currentPage := currentPage s + 1,
           gallery := (if length (filteredList s) = 0 then [NoImagesFound] else appended)\<rparr>)"

definition resetAndRender ::
  "image list \<Rightarrow> (string \<Rightarrow> string \<Rightarrow> int) \<Rightarrow> app_state \<Rightarrow> app_state" where
  "resetAndRender imgs lc s = renderGalleryPage (applyFiltersSearchSort imgs lc (s\<lparr>gallery := []\<rparr>))"

text \<open>The number of gallery items in the grid.\<close>

definition rendered :: "app_state \<Rightarrow> nat" where
  "rendered s = length (filter (\<lambda>n. n \<noteq> NoImagesFound) (gallery s))"

text \<open>
  The grid holds the pages rendered so far: as many items as the cursor has passed, up
  to the length of the filtered list.
\<close>

definition grid_in_step :: "app_state \<Rightarrow> bool" where
  "grid_in_step s = (rendered s = min (currentPage s * PAGE_SIZE) (length (filteredList s)))"

section \<open>Favorites\<close>

text \<open>
  \<open>JSON.stringify\<close> of an array of strings. The quote, the backslash and the control
  characters are escaped; every other code unit below 256 is copied.
\<close>

definition hex_digit :: "nat \<Rightarrow> char" where
  "hex_digit n = (if n < 10 then char_of (48 + n) else char_of (87 + n))"

definition quote_char :: "char \<Rightarrow> string" where
  "quote_char c =
     (let n = (of_char c :: nat)
      in if n = 34 then [CHR 0x5C, CHR 0x22]
         else if n = 92 then [CHR 0x5C, CHR 0x5C]
         else if n = 8 then [CHR 0x5C, CHR ''b'']
         else if n = 12 then [CHR 0x5C, CHR ''f'']
         else if n = 10 then [CHR 0x5C, CHR ''n'']
         else if n = 13 then [CHR 0x5C, CHR ''r'']
         else if n = 9 then [CHR 0x5C, CHR ''t'']
         else if n < 32 then
           [CHR 0x5C, CHR ''u'', CHR ''0'', CHR ''0'', hex_digit (n div 16), hex_digit (n mod 16)]
         else [c])"

definition QuoteJSONString :: "string \<Rightarrow> string" where
  "QuoteJSONString s = [CHR 0x22] @ concat (map quote_char s) @ [CHR 0x22]"

fun join_comma :: "string list \<Rightarrow> string" where
  "join_comma [] = []"
| "join_comma [x] = x"
| "join_comma (x # y # ys) = x @ '','' @ join_comma (y # ys)"

definition JSON_stringify :: "string list \<Rightarrow> string" where
  "JSON_stringify xs = ''['' @ join_comma (map QuoteJSONString xs) @ '']''"

definition persistFavorites :: "app_state \<Rightarrow> app_state" where
  "persistFavorites s =
     s\<lparr>localStorage := (localStorage s)(''gallery_favorites'' \<mapsto> JSON_stringify (favorites s))\<rparr>"

text \<open>
  The favourite button handed to \<open>toggleFavorite\<close> is the button of a grid item, named
  here by the item's position in the grid; \<open>None\<close> when the caller passes no button.
\<close>

definition set_heart :: "nat option \<Rightarrow> bool \<Rightarrow> gallery_node list \<Rightarrow> gallery_node list" where
  "set_heart btnNode solid g =
     (case btnNode of
        None \<Rightarrow> g
      | Some k \<Rightarrow>
          (if k < length g then
             g[k := (case g ! k of Item it \<Rightarrow> Item (it\<lparr>item_solid := solid\<rparr>) | n \<Rightarrow> n)]
           else g))"

definition updateFavoriteCount :: "app_state \<Rightarrow> app_state" where
  "updateFavoriteCount s = s\<lparr>favoriteCount := length (favorites s)\<rparr>"

definition renderFavoritesSidebar :: "image list \<Rightarrow> app_state \<Rightarrow> app_state" where
  "renderFavoritesSidebar imgs s =
     (let s1 = updateFavoriteCount (s\<lparr>favoritesList := []\<rparr>)
      in if length (favorites s1) = 0 then s1\<lparr>favoritesList := [NoFavoritesYet]\<rparr>
         else s1\<lparr>favoritesList :=
                   map Fav (List.map_filter (\<lambda>imgId. find (\<lambda>i. id' i = imgId) imgs) (favorites s1))\<rparr>)"

text \<open>
  The script declares \<open>toggleFavorite\<close> twice; function declarations are hoisted and the
  later one replaces the earlier, so every call runs the second body, which is the one
  modelled. The set keeps insertion order: \<open>add\<close> appends, \<open>delete\<close> removes.
\<close>

definition toggleFavorite :: "image list \<Rightarrow> string \<Rightarrow> nat option \<Rightarrow> app_state \<Rightarrow> app_state" where
  "toggleFavorite imgs imgId btnNode s =
     (let s1 =
        (if imgId \<in> set (favorites s) then
           s\<lparr>favorites := removeAll imgId (favorites s),
             gallery := set_heart btnNode False (gallery s)\<rparr>
         else
           s\<lparr>favorites := favorites s @ [imgId],
             gallery := set_heart btnNode True (gallery s)\<rparr>)
      in renderFavoritesSidebar imgs (updateLightboxFavoriteIcon (persistFavorites s1)))"

definition toggleFavoriteCurrent :: "image list \<Rightarrow> app_state \<Rightarrow> app_state" where
  "toggleFavoriteCurrent imgs s =
     (case at_index (filteredList s) (currentIndex s) of
        None \<Rightarrow> s
      | Some img \<Rightarrow> updateLightboxFavoriteIcon (toggleFavorite imgs (id' img) None s))"

section \<open>Slideshow\<close>

text \<open>
  \<open>setInterval\<close> hands out a fresh positive id and registers the timer; \<open>clearInterval\<close>
  removes it. \<open>timers\<close> is the set of interval timers the browser still fires; each of
  them calls \<open>showNext\<close>. A timer id is truthy when it is not zero.
\<close>

definition truthy :: "nat option \<Rightarrow> bool" where
  "truthy t = (case t of None \<Rightarrow> False | Some n \<Rightarrow> n \<noteq> 0)"

definition clearInterval :: "nat option \<Rightarrow> app_state \<Rightarrow> app_state" where
  "clearInterval t s = (case t of None \<Rightarrow> s | Some n \<Rightarrow> s\<lparr>timers := timers s - {n}\<rparr>)"

definition stopSlideshow :: "app_state \<Rightarrow> app_state" where
  "stopSlideshow s =
     (if \<not> truthy (slideshowInterval s) then s
      else (clearInterval (slideshowInterval s) s)
             \<lparr>slideshowInterval := None, slideshowBtnActive := False, slideshowBtnPause := False\<rparr>)"

definition startSlideshow :: "app_state \<Rightarrow> app_state" where
  "startSlideshow s =
     (let t = Suc (nextTimer s)
      in s\<lparr>slideshowBtnActive := True, slideshowBtnPause := True,
           slideshowInterval := Some t, timers := insert t (timers s), nextTimer := t\<rparr>)"

definition toggleSlideshow :: "app_state \<Rightarrow> app_state" where
  "toggleSlideshow s = (if truthy (slideshowInterval s) then stopSlideshow s else startSlideshow s)"

definition closeLightbox :: "app_state \<Rightarrow> app_state" where
  "closeLightbox s = stopSlideshow (s\<lparr>lightboxActive := False\<rparr>)"

text \<open>One firing of the interval timer \<open>t\<close>: nothing happens once the timer is cleared.\<close>

definition tick :: "nat \<Rightarrow> app_state \<Rightarrow> app_state" where
  "tick t s = (if t \<in> timers s then showNext s else s)"

section \<open>Start of the page\<close>

text \<open>
  Modelled from the spec: the page's markup is not part of the script, so what the
  document shows before the script runs is taken from the specification: the grid and
  the sidebar are empty and the lightbox is in its closed state. The variables are the
  module-level initialisers, for the catalog \<open>imgs\<close>, the hydrated favourites set
  \<open>favs\<close>, the storage \<open>store\<close>, and the values \<open>search\<close> and \<open>sortBy\<close> that the
  search field and the sort selector start with.
\<close>

definition initial_state ::
  "image list \<Rightarrow> string list \<Rightarrow> (string \<rightharpoonup> string) \<Rightarrow> string \<Rightarrow> string \<Rightarrow> app_state" where
  "initial_state imgs favs store search sortBy =
     \<lparr>currentPage = 0, filteredList = imgs, activeCategory = ''all'', favorites = favs,
      slideshowInterval = None, currentIndex = 0,
      searchValue = search, sortValue = sortBy,
      gallery = [], loadMoreShown = False, spinnerShown = False, lightboxActive = False,
      lightboxImageSrc = [], lightboxImageAlt = [], lightboxTitle = [],
      lightboxDescription = [], imageCounter = [],
      favoriteBtnActive = False, favoriteBtnSolid = False,
      slideshowBtnActive = False, slideshowBtnPause = False,
      favoritesList = [], favoriteCount = 0,
      localStorage = store, timers = {}, nextTimer = 0\<rparr>"

text \<open>
  \<open>init()\<close>, followed by the script's last statement, the first rendering of the
  sidebar. Binding the handlers and applying the theme change nothing modelled here.
\<close>

definition init :: "image list \<Rightarrow> (string \<Rightarrow> string \<Rightarrow> int) \<Rightarrow> app_state \<Rightarrow> app_state" where
  "init imgs lc s = renderGalleryPage (applyFiltersSearchSort imgs lc s)"

definition start_page :: "image list \<Rightarrow> (string \<Rightarrow> string \<Rightarrow> int) \<Rightarrow> app_state \<Rightarrow> app_state" where
  "start_page imgs lc s = renderFavoritesSidebar imgs (init imgs lc s)"

section \<open>View agreement\<close>

text \<open>
  What it means for a view to agree with the favourites set: every grid item shows the
  solid heart exactly when its record is a favourite; the lightbox button does so for
  the selected record; the sidebar lists exactly the favourites found in the catalog.
\<close>

definition node_agrees :: "string list \<Rightarrow> gallery_node \<Rightarrow> bool" where
  "node_agrees favs n =
     (case n of Item it \<Rightarrow> item_solid it = (id' (item_img it) \<in> set favs) | NoImagesFound \<Rightarrow> True)"

definition grid_agrees :: "app_state \<Rightarrow> bool" where
  "grid_agrees s = list_all (node_agrees (favorites s)) (gallery s)"

definition lightbox_agrees :: "app_state \<Rightarrow> bool" where
  "lightbox_agrees s =
     (case at_index (filteredList s) (currentIndex s) of
        None \<Rightarrow> True
      | Some img \<Rightarrow> favoriteBtnSolid s = (id' img \<in> set (favorites s)))"

definition sidebar_agrees :: "image list \<Rightarrow> app_state \<Rightarrow> bool" where
  "sidebar_agrees imgs s =
     (favoritesList s =
        (if favorites s = [] then [NoFavoritesYet]
         else map Fav (List.map_filter (\<lambda>imgId. find (\<lambda>i. id' i = imgId) imgs) (favorites s))))"

section \<open>Event handlers\<close>

text \<open>
  The events whose handlers touch the modelled state, as \<open>bindUI\<close>,
  \<open>createGalleryItem\<close>, \<open>setupInfiniteScroll\<close>, \<open>renderFavoritesSidebar\<close> and the
  \<open>beforeunload\<close> listener bind them. A grid item is named by its position in the grid.
\<close>

datatype event =
    FilterClick "string option"
  | SearchInput string
  | SearchDebounce
  | SortChange string
  | LoadMoreClick
  | CloseClick
  | PrevClick
  | NextClick
  | OverlayClick
  | FavoriteBtnClick
  | SlideshowBtnClick
  | KeyDown string bool
  | ItemClick nat
  | ItemOpenClick nat
  | ItemFavClick nat
  | ItemKeyDown nat string
  | SentinelIntersect
  | Tick nat
  | SidebarImgClick image
  | SidebarRemoveClick image
  | BeforeUnload

text \<open>
  The \<open>keydown\<close> listener on the document; \<open>isInput\<close> says whether the event target is
  an \<open>INPUT\<close> element.
\<close>

definition onKeyDown :: "string \<Rightarrow> bool \<Rightarrow> app_state \<Rightarrow> app_state" where
  "onKeyDown key isInput s =
     (if lightboxActive s then
        (let s1 = (if key = ''ArrowRight'' then showNext s else s);
             s2 = (if key = ''ArrowLeft'' then showPrev s1 else s1);
             s3 = (if key = ''Escape'' then closeLightbox s2 else s2)
         in if key = '' '' \<and> \<not> isInput then toggleSlideshow s3 else s3)
      else s)"

text \<open>\<open>filteredList.findIndex\<close>: the first position whose record satisfies \<open>P\<close>, or \<open>-1\<close>.\<close>

fun findIndex :: "('a \<Rightarrow> bool) \<Rightarrow> 'a list \<Rightarrow> int" where
  "findIndex P [] = - 1"
| "findIndex P (x # xs) =
     (if P x then 0 else (let i = findIndex P xs in if i < 0 then - 1 else i + 1))"

definition on_item :: "nat \<Rightarrow> (gallery_item \<Rightarrow> app_state \<Rightarrow> app_state) \<Rightarrow> app_state \<Rightarrow> app_state" where
  "on_item k f s =
     (if k < length (gallery s) then
        (case gallery s ! k of Item it \<Rightarrow> f it s | NoImagesFound \<Rightarrow> s)
      else s)"

fun handle :: "image list \<Rightarrow> (string \<Rightarrow> string \<Rightarrow> int) \<Rightarrow> event \<Rightarrow> app_state \<Rightarrow> app_state" where
  "handle imgs lc (FilterClick f) s =
     resetAndRender imgs lc
       (s\<lparr>activeCategory := (case f of None \<Rightarrow> ''all'' | Some c \<Rightarrow> if c = [] then ''all'' else c)\<rparr>)"
| "handle imgs lc (SearchInput v) s = s\<lparr>searchValue := v\<rparr>"
| "handle imgs lc SearchDebounce s = resetAndRender imgs lc s"
| "handle imgs lc (SortChange v) s = resetAndRender imgs lc (s\<lparr>sortValue := v\<rparr>)"
| "handle imgs lc LoadMoreClick s = renderGalleryPage s"
| "handle imgs lc CloseClick s = closeLightbox s"
| "handle imgs lc PrevClick s = showPrev s"
| "handle imgs lc NextClick s = showNext s"
| "handle imgs lc OverlayClick s = closeLightbox s"
| "handle imgs lc FavoriteBtnClick s = toggleFavoriteCurrent imgs s"
| "handle imgs lc SlideshowBtnClick s = toggleSlideshow s"
| "handle imgs lc (KeyDown key isInput) s = onKeyDown key isInput s"
| "handle imgs lc (ItemClick k) s =
     on_item k (\<lambda>it. openLightboxByIndex (int (item_index it))) s"
| "handle imgs lc (ItemOpenClick k) s =
     on_item k (\<lambda>it. openLightboxByIndex (int (item_index it))) s"
| "handle imgs lc (ItemFavClick k) s =
     on_item k (\<lambda>it. toggleFavorite imgs (id' (item_img it)) (Some k)) s"
| "handle imgs lc (ItemKeyDown k key) s =
     onKeyDown key False
       (on_item k (\<lambda>it s'. if key = ''Enter'' \<or> key = '' ''
                            then openLightboxByIndex (int (item_index it)) s' else s') s)"
| "handle imgs lc SentinelIntersect s = (if loadMoreShown s then renderGalleryPage s else s)"
| "handle imgs lc (Tick t) s = tick t s"
| "handle imgs lc (SidebarImgClick imgData) s =
     (let index = findIndex (\<lambda>i. id' i = id' imgData) (filteredList s)
      in openLightboxByIndex (if index \<ge> 0 then index else 0) s)"
| "handle imgs lc (SidebarRemoveClick imgData) s =
     resetAndRender imgs lc
       (renderFavoritesSidebar imgs (toggleFavorite imgs (id' imgData) None s))"
| "handle imgs lc BeforeUnload s = persistFavorites s"

text \<open>The slideshow timer is the only interval timer, and its id is not zero.\<close>

definition timer_inv :: "app_state \<Rightarrow> bool" where
  "timer_inv s =
     (timers s = set_option (slideshowInterval s) \<and> slideshowInterval s \<noteq> Some 0)"

text \<open>The states the page can be in: the started page, and what any sequence of events makes of it.\<close>

inductive reachable :: "image list \<Rightarrow> (string \<Rightarrow> string \<Rightarrow> int) \<Rightarrow> app_state \<Rightarrow> bool"
  for imgs :: "image list" and lc :: "string \<Rightarrow> string \<Rightarrow> int" where
  start: "reachable imgs lc (start_page imgs lc (initial_state imgs favs store search sortBy))"
| step: "reachable imgs lc s \<Longrightarrow> reachable imgs lc (handle imgs lc e s)"

text \<open>
  Modelled from the spec: the page's markup and style sheet are not part of the script.
  The specification makes the lightbox a modal viewer whose controls (close, previous,
  next, favourite, slideshow, and the overlay behind them) belong to the open lightbox:
  they can be operated only while it is open.
\<close>

definition available :: "app_state \<Rightarrow> event \<Rightarrow> bool" where
  "available s e =
     (if e = CloseClick \<or> e = PrevClick \<or> e = NextClick \<or> e = OverlayClick \<or>
         e = FavoriteBtnClick \<or> e = SlideshowBtnClick
      then lightboxActive s else True)"

inductive reachable_modal :: "image list \<Rightarrow> (string \<Rightarrow> string \<Rightarrow> int) \<Rightarrow> app_state \<Rightarrow> bool"
  for imgs :: "image list" and lc :: "string \<Rightarrow> string \<Rightarrow> int" where
  start_modal: "reachable_modal imgs lc (start_page imgs lc (initial_state imgs favs store search sortBy))"
| step_modal: "reachable_modal imgs lc s \<Longrightarrow> available s e \<Longrightarrow>
               reachable_modal imgs lc (handle imgs lc e s)"

text \<open>No interval timer is active, or the lightbox is open.\<close>

definition open_or_idle :: "app_state \<Rightarrow> bool" where
  "open_or_idle s = (timers s = {} \<or> lightboxActive s)"

section \<open>Reference notions for the properties\<close>

text \<open>
  The match predicate read off the specification's sentence: the category agrees or the
  active category is \<open>all\<close>, and a non-empty query is a substring of the lower-cased
  concatenation of title, description and category.
\<close>

definition spec_matches :: "string \<Rightarrow> string \<Rightarrow> image \<Rightarrow> bool" where
  "spec_matches cat query img =
     ((cat = ''all'' \<or> category img = cat) \<and>
      (query = [] \<or> sublist query (toLowerCase (title img @ description img @ category img))))"

text \<open>The text that the script's filter searches: the three fields joined by single spaces.\<close>

definition haystack :: "image \<Rightarrow> string" where
  "haystack img = toLowerCase (title img @ '' '' @ description img @ '' '' @ category img)"

text \<open>The time value of a record's date, for records whose date parses.\<close>

definition dateKey :: "image \<Rightarrow> int" where
  "dateKey r = (case Date_parse (date r) of Some v \<Rightarrow> v | None \<Rightarrow> 0)"

text \<open>
  A consistent comparator on strings: equal arguments compare 0, swapping the arguments
  swaps the sign, and \<open>\<le> 0\<close> is transitive.
\<close>

definition consistent :: "(string \<Rightarrow> string \<Rightarrow> int) \<Rightarrow> bool" where
  "consistent lc =
     ((\<forall>a. lc a a = 0) \<and>
      (\<forall>a b. (lc a b < 0) = (0 < lc b a)) \<and>
      (\<forall>a b c. lc a b \<le> 0 \<and> lc b c \<le> 0 \<longrightarrow> lc a c \<le> 0))"

text \<open>
  A sample collation for running the model: strings are compared code unit by code
  unit, a proper prefix first.
\<close>

fun codeUnitCompare :: "string \<Rightarrow> string \<Rightarrow> int" where
  "codeUnitCompare [] [] = 0"
| "codeUnitCompare [] (y # ys) = - 1"
| "codeUnitCompare (x # xs) [] = 1"
| "codeUnitCompare (x # xs) (y # ys) =
     (if (of_char x :: nat) < of_char y then - 1
      else if (of_char y :: nat) < of_char x then 1
      else codeUnitCompare xs ys)"

section \<open>Hydrating the favourites from storage\<close>

text \<open>
  \<open>JSON.parse\<close>. A JSON text is white space, brackets, braces, commas, colons, string
  and number literals and the three names \<open>true\<close>, \<open>false\<close> and \<open>null\<close>. The model reads
  the tokens first and then builds the value with an explicit stack. A string value is
  its list of code units, so that a \<open>\u\<close> escape above 255 has a value too; a number is
  kept as its literal, since the script never computes with one.
\<close>

datatype json =
    JNull
  | JBool bool
  | JNumber string
  | JString "nat list"
  | JArray "json list"
  | JObject "(nat list \<times> json) list"

datatype js_error = SyntaxError | TypeError

datatype token =
    LBracket | RBracket | LBrace | RBrace | Comma | Colon
  | TString "nat list" | TNumber string | TTrue | TFalse | TNull

definition hex_val :: "char \<Rightarrow> nat option" where
  "hex_val c =
     (let n = (of_char c :: nat)
      in if 48 \<le> n \<and> n \<le> 57 then Some (n - 48)
         else if 97 \<le> n \<and> n \<le> 102 then Some (n - 87)
         else if 65 \<le> n \<and> n \<le> 70 then Some (n - 55)
         else None)"

definition escape_val :: "char \<Rightarrow> nat option" where
  "escape_val c =
     (if c = CHR 0x22 then Some 34
      else if c = CHR 0x5C then Some 92
      else if c = CHR ''/'' then Some 47
      else if c = CHR ''b'' then Some 8
      else if c = CHR ''f'' then Some 12
      else if c = CHR ''n'' then Some 10
      else if c = CHR ''r'' then Some 13
      else if c = CHR ''t'' then Some 9
      else None)"

text \<open>
  The rest of a string literal after its opening quote: the code units read and the
  text after the closing quote. \<open>Hex k v\<close> is inside a \<open>\u\<close> escape with \<open>k\<close> digits
  still to come.
\<close>

datatype strmode = Plain | Escaped | Hex nat nat

fun lex_string :: "strmode \<Rightarrow> nat list \<Rightarrow> string \<Rightarrow> (nat list \<times> string) option" where
  "lex_string m acc [] = None"
| "lex_string Plain acc (c # cs) =
     (if c = CHR 0x22 then Some (rev acc, cs)
      else if c = CHR 0x5C then lex_string Escaped acc cs
      else if (of_char c :: nat) < 32 then None
      else lex_string Plain (of_char c # acc) cs)"
| "lex_string Escaped acc (c # cs) =
     (if c = CHR ''u'' then lex_string (Hex 4 0) acc cs
      else (case escape_val c of
              None \<Rightarrow> None
            | Some n \<Rightarrow> lex_string Plain (n # acc) cs))"
| "lex_string (Hex k v) acc (c # cs) =
     (case hex_val c of
        None \<Rightarrow> None
      | Some d \<Rightarrow>
          (if k \<le> 1 then lex_string Plain ((16 * v + d) # acc) cs
           else lex_string (Hex (k - 1) (16 * v + d)) acc cs))"

definition is_digit :: "char \<Rightarrow> bool" where
  "is_digit c = (48 \<le> (of_char c :: nat) \<and> (of_char c :: nat) \<le> 57)"

definition lex_frac :: "string \<Rightarrow> string option" where
  "lex_frac r =
     (case r of
        [] \<Rightarrow> Some r
      | c # cs \<Rightarrow>
          (if c = CHR ''.'' then
             (if takeWhile is_digit cs = [] then None else Some (dropWhile is_digit cs))
           else Some r))"

definition lex_exp :: "string \<Rightarrow> string option" where
  "lex_exp r =
     (case r of
        [] \<Rightarrow> Some r
      | c # cs \<Rightarrow>
          (if c = CHR ''e'' \<or> c = CHR ''E'' then
             (let cs' = (case cs of
                           [] \<Rightarrow> cs
                         | d # ds \<Rightarrow> if d = CHR ''+'' \<or> d = CHR ''-'' then ds else cs)
              in if takeWhile is_digit cs' = [] then None else Some (dropWhile is_digit cs'))
           else Some r))"

text \<open>
  A number literal at the head of \<open>s\<close>: an optional minus, digits without a superfluous
  leading zero, an optional fraction and an optional exponent. The result is the literal
  and the text after it.
\<close>

definition lex_number :: "string \<Rightarrow> (string \<times> string) option" where
  "lex_number s =
     (let s1 = (case s of [] \<Rightarrow> s | c # cs \<Rightarrow> if c = CHR ''-'' then cs else s);
          ds = takeWhile is_digit s1;
          r1 = dropWhile is_digit s1
      in if ds = [] \<or> (1 < length ds \<and> hd ds = CHR ''0'') then None
         else (case lex_frac r1 of
                 None \<Rightarrow> None
               | Some r2 \<Rightarrow>
                   (case lex_exp r2 of
                      None \<Rightarrow> None
                    | Some r3 \<Rightarrow> Some (take (length s - length r3) s, r3))))"

lemma lex_string_shorter: "lex_string m acc cs = Some p \<Longrightarrow> length (snd p) < length cs"
  by (induction m acc cs rule: lex_string.induct) (auto split: if_splits option.splits)

lemma lex_frac_shorter:
  assumes "lex_frac r = Some r'"
  shows "length r' \<le> length r"
proof (cases r)
  case Nil
  with assms show ?thesis by (simp add: lex_frac_def)
next
  case (Cons c cs)
  have "length (dropWhile is_digit cs) \<le> length cs" by (rule length_dropWhile_le)
  with assms Cons show ?thesis
    by (cases "c = CHR ''.''"; cases "takeWhile is_digit cs = []") (auto simp: lex_frac_def)
qed

lemma lex_exp_shorter:
  assumes "lex_exp r = Some r'"
  shows "length r' \<le> length r"
proof (cases r)
  case Nil
  with assms show ?thesis by (simp add: lex_exp_def)
next
  case (Cons c cs)
  define cs' where "cs' = (case cs of [] \<Rightarrow> cs
                           | d # ds \<Rightarrow> if d = CHR ''+'' \<or> d = CHR ''-'' then ds else cs)"
  have 1: "length cs' \<le> length cs"
    by (simp add: cs'_def split: list.split)
  have 2: "length (dropWhile is_digit cs') \<le> length cs'" by (rule length_dropWhile_le)
  show ?thesis
  proof (cases "c = CHR ''e'' \<or> c = CHR ''E''")
    case True
    with assms Cons have "r' = dropWhile is_digit cs'"
      by (simp add: lex_exp_def cs'_def [symmetric] split: if_splits)
    with 1 2 Cons show ?thesis by simp
  next
    case False
    with assms Cons show ?thesis by (simp add: lex_exp_def)
  qed
qed

lemma lex_number_shorter:
  assumes "lex_number s = Some p"
  shows "length (snd p) < length s"
proof -
  define s1 where "s1 = (case s of [] \<Rightarrow> s | c # cs \<Rightarrow> if c = CHR ''-'' then cs else s)"
  define r1 where "r1 = dropWhile is_digit s1"
  have e: "lex_number s =
      (if takeWhile is_digit s1 = [] \<or>
          (1 < length (takeWhile is_digit s1) \<and> hd (takeWhile is_digit s1) = CHR ''0'')
       then None
       else (case lex_frac r1 of
               None \<Rightarrow> None
             | Some r2 \<Rightarrow>
                 (case lex_exp r2 of
                    None \<Rightarrow> None
                  | Some r3 \<Rightarrow> Some (take (length s - length r3) s, r3))))"
    unfolding lex_number_def s1_def r1_def Let_def ..
  from assms e have ds: "takeWhile is_digit s1 \<noteq> []"
    by (cases "takeWhile is_digit s1 = []") simp_all
  from assms e obtain r2 where r2: "lex_frac r1 = Some r2"
    by (cases "lex_frac r1") (simp_all split: if_splits)
  from assms e r2 obtain r3 where r3: "lex_exp r2 = Some r3"
    by (cases "lex_exp r2") (simp_all split: if_splits)
  from assms e r2 r3 have p: "snd p = r3"
    by (auto split: if_splits)
  have "length s1 \<le> length s"
    by (simp add: s1_def split: list.split)
  moreover have "length (takeWhile is_digit s1) + length r1 = length s1"
    unfolding r1_def by (metis length_append takeWhile_dropWhile_id)
  moreover from ds have "0 < length (takeWhile is_digit s1)" by simp
  moreover note lex_frac_shorter [OF r2] lex_exp_shorter [OF r3]
  ultimately show ?thesis unfolding p by linarith
qed

definition is_json_ws :: "char \<Rightarrow> bool" where
  "is_json_ws c = (c = CHR '' '' \<or> c = CHR 0x09 \<or> c = CHR 0x0A \<or> c = CHR 0x0D)"

function tokenize :: "string \<Rightarrow> token list option" where
  "tokenize [] = Some []"
| "tokenize (c # cs) =
     (if is_json_ws c then tokenize cs
      else if c = CHR ''['' then map_option (Cons LBracket) (tokenize cs)
      else if c = CHR '']'' then map_option (Cons RBracket) (tokenize cs)
      else if c = CHR ''{'' then map_option (Cons LBrace) (tokenize cs)
      else if c = CHR ''}'' then map_option (Cons RBrace) (tokenize cs)
      else if c = CHR '','' then map_option (Cons Comma) (tokenize cs)
      else if c = CHR '':'' then map_option (Cons Colon) (tokenize cs)
      else if c = CHR 0x22 then
        (case lex_string Plain [] cs of
           None \<Rightarrow> None
         | Some p \<Rightarrow> map_option (Cons (TString (fst p))) (tokenize (snd p)))
      else if c = CHR ''-'' \<or> is_digit c then
        (case lex_number (c # cs) of
           None \<Rightarrow> None
         | Some p \<Rightarrow> map_option (Cons (TNumber (fst p))) (tokenize (snd p)))
      else if prefix ''true'' (c # cs) then map_option (Cons TTrue) (tokenize (drop 3 cs))
      else if prefix ''false'' (c # cs) then map_option (Cons TFalse) (tokenize (drop 4 cs))
      else if prefix ''null'' (c # cs) then map_option (Cons TNull) (tokenize (drop 3 cs))
      else None)"
  by pat_completeness auto
termination
proof (relation "measure length")
  show "wf (measure length)" by simp
next
  fix c cs p
  assume "lex_string Plain [] cs = Some p"
  from lex_string_shorter [OF this] show "(snd p, c # cs) \<in> measure length" by simp
next
  fix c cs p
  assume "lex_number (c # cs) = Some p"
  from lex_number_shorter [OF this] show "(snd p, c # cs) \<in> measure length" by simp
qed simp_all

declare tokenize.simps [simp del]

datatype frame = InArray "json list" | InObject "(nat list \<times> json) list" "nat list option"

datatype expect =
    ExpValue | ExpValueOrRBracket | ExpKeyOrRBrace | ExpKey | ExpColon | ExpCommaOrClose
  | ExpEnd json

text \<open>A finished value goes into the container on top of the stack, or is the result.\<close>

fun complete :: "json \<Rightarrow> frame list \<Rightarrow> (expect \<times> frame list) option" where
  "complete v [] = Some (ExpEnd v, [])"
| "complete v (InArray es # st) = Some (ExpCommaOrClose, InArray (v # es) # st)"
| "complete v (InObject ms (Some k) # st) = Some (ExpCommaOrClose, InObject ((k, v) # ms) None # st)"
| "complete v (InObject ms None # st) = None"

definition start_value :: "token \<Rightarrow> frame list \<Rightarrow> (expect \<times> frame list) option" where
  "start_value t st =
     (case t of
        LBracket \<Rightarrow> Some (ExpValueOrRBracket, InArray [] # st)
      | LBrace \<Rightarrow> Some (ExpKeyOrRBrace, InObject [] None # st)
      | TString x \<Rightarrow> complete (JString x) st
      | TNumber x \<Rightarrow> complete (JNumber x) st
      | TTrue \<Rightarrow> complete (JBool True) st
      | TFalse \<Rightarrow> complete (JBool False) st
      | TNull \<Rightarrow> complete JNull st
      | _ \<Rightarrow> None)"

definition close_array :: "frame list \<Rightarrow> (expect \<times> frame list) option" where
  "close_array st = (case st of InArray es # st' \<Rightarrow> complete (JArray (rev es)) st' | _ \<Rightarrow> None)"

definition close_object :: "frame list \<Rightarrow> (expect \<times> frame list) option" where
  "close_object st =
     (case st of InObject ms None # st' \<Rightarrow> complete (JObject (rev ms)) st' | _ \<Rightarrow> None)"

definition read_key :: "token \<Rightarrow> frame list \<Rightarrow> (expect \<times> frame list) option" where
  "read_key t st =
     (case (t, st) of
        (TString k, InObject ms None # st') \<Rightarrow> Some (ExpColon, InObject ms (Some k) # st')
      | _ \<Rightarrow> None)"

fun step :: "expect \<Rightarrow> frame list \<Rightarrow> token \<Rightarrow> (expect \<times> frame list) option" where
  "step ExpValue st t = start_value t st"
| "step ExpValueOrRBracket st t = (if t = RBracket then close_array st else start_value t st)"
| "step ExpKeyOrRBrace st t = (if t = RBrace then close_object st else read_key t st)"
| "step ExpKey st t = read_key t st"
| "step ExpColon st t = (if t = Colon then Some (ExpValue, st) else None)"
| "step ExpCommaOrClose st t =
     (if t = RBracket then close_array st
      else if t = RBrace then close_object st
      else if t = Comma then
        (case st of
           InArray es # st' \<Rightarrow> Some (ExpValue, st)
         | InObject ms None # st' \<Rightarrow> Some (ExpKey, st)
         | _ \<Rightarrow> None)
      else None)"
| "step (ExpEnd v) st t = None"

fun run :: "expect \<Rightarrow> frame list \<Rightarrow> token list \<Rightarrow> json option" where
  "run e st [] = (case e of ExpEnd v \<Rightarrow> Some v | _ \<Rightarrow> None)"
| "run e st (t # ts) = (case step e st t of None \<Rightarrow> None | Some (e', st') \<Rightarrow> run e' st' ts)"

definition JSON_parse :: "string \<Rightarrow> js_error + json" where
  "JSON_parse raw =
     (case tokenize raw of
        None \<Rightarrow> Inl SyntaxError
      | Some ts \<Rightarrow> (case run ExpValue [] ts of None \<Rightarrow> Inl SyntaxError | Some v \<Rightarrow> Inr v))"

text \<open>
  Iterating a string yields its code points: a high surrogate followed by a low one is
  a single element.
\<close>

fun code_points :: "nat list \<Rightarrow> nat list list" where
  "code_points [] = []"
| "code_points [c] = [[c]]"
| "code_points (c # d # cs) =
     (if 55296 \<le> c \<and> c \<le> 56319 \<and> 56320 \<le> d \<and> d \<le> 57343
      then [c, d] # code_points cs else [c] # code_points (d # cs))"

text \<open>
  \<open>new Set(v)\<close> for a parsed value \<open>v\<close>: the values that the constructor adds to the new
  set, in order. \<open>null\<close> gives the empty set, an array its elements and a string its code
  points; a number, a boolean and an object are not iterable.
\<close>

fun new_Set :: "json \<Rightarrow> js_error + json list" where
  "new_Set JNull = Inr []"
| "new_Set (JArray xs) = Inr xs"
| "new_Set (JString x) = Inr (map JString (code_points x))"
| "new_Set (JBool b) = Inl TypeError"
| "new_Set (JNumber x) = Inl TypeError"
| "new_Set (JObject ms) = Inl TypeError"

text \<open>
  The initialiser of \<open>favorites\<close>: \<open>getItem\<close> gives \<open>null\<close> for an absent key, and both
  \<open>null\<close> and the empty string are replaced by the text \<open>[]\<close>.
\<close>

definition hydrateFavorites :: "(string \<rightharpoonup> string) \<Rightarrow> js_error + json list" where
  "hydrateFavorites store =
     (let raw = (case store ''gallery_favorites'' of
                   None \<Rightarrow> ''[]''
                 | Some v \<Rightarrow> if v = [] then ''[]'' else v)
      in case JSON_parse raw of Inl e \<Rightarrow> Inl e | Inr v \<Rightarrow> new_Set v)"

text \<open>
  When the hydrated values are strings, they are the \<open>favs\<close> that \<open>initial_state\<close>
  starts from.
\<close>

section \<open>Properties of lightbox navigation\<close>

lemma length_IMAGES: "length IMAGES = 20"
  by (simp add: IMAGES_def)

lemma IMAGES_not_Nil: "IMAGES \<noteq> []"
  using length_IMAGES by auto

lemma initial_state_sel [simp]:
  "filteredList (initial_state imgs favs store search sortBy) = imgs"
  "currentIndex (initial_state imgs favs store search sortBy) = 0"
  "currentPage (initial_state imgs favs store search sortBy) = 0"
  "favorites (initial_state imgs favs store search sortBy) = favs"
  "gallery (initial_state imgs favs store search sortBy) = []"
  "activeCategory (initial_state imgs favs store search sortBy) = ''all''"
  "searchValue (initial_state imgs favs store search sortBy) = search"
  "sortValue (initial_state imgs favs store search sortBy) = sortBy"
  "slideshowInterval (initial_state imgs favs store search sortBy) = None"
  "timers (initial_state imgs favs store search sortBy) = {}"
  "lightboxActive (initial_state imgs favs store search sortBy) = False"
  "localStorage (initial_state imgs favs store search sortBy) = store"
  by (simp_all add: initial_state_def)

lemma currentIndex_updateLightboxFavoriteIcon [simp]:
  "currentIndex (updateLightboxFavoriteIcon s) = currentIndex s"
  by (simp add: updateLightboxFavoriteIcon_def split: option.split)

lemma currentIndex_updateLightbox [simp]:
  "currentIndex (updateLightbox s) = currentIndex s"
  by (simp add: updateLightbox_def split: option.split)

lemma filteredList_updateLightboxFavoriteIcon [simp]:
  "filteredList (updateLightboxFavoriteIcon s) = filteredList s"
  by (simp add: updateLightboxFavoriteIcon_def split: option.split)

lemma filteredList_updateLightbox [simp]:
  "filteredList (updateLightbox s) = filteredList s"
  by (simp add: updateLightbox_def split: option.split)

lemma js_rem_nonneg: "0 \<le> a \<Longrightarrow> 0 < b \<Longrightarrow> js_rem a b = a mod b"
  by (cases "a = 0") (simp_all add: js_rem_def)

lemma currentIndex_showNext:
  "filteredList s \<noteq> [] \<Longrightarrow> 0 \<le> currentIndex s \<Longrightarrow>
   currentIndex (showNext s) = (currentIndex s + 1) mod int (length (filteredList s))"
  by (simp add: showNext_def js_rem_nonneg)

lemma currentIndex_showPrev:
  "filteredList s \<noteq> [] \<Longrightarrow> 0 \<le> currentIndex s \<Longrightarrow>
   currentIndex (showPrev s) =
     (currentIndex s - 1 + int (length (filteredList s))) mod int (length (filteredList s))"
proof -
  assume ne: "filteredList s \<noteq> []" and nn: "0 \<le> currentIndex s"
  from ne have "0 < int (length (filteredList s))" by simp
  with nn have "0 \<le> currentIndex s - 1 + int (length (filteredList s))" by linarith
  with ne show ?thesis by (simp add: showPrev_def js_rem_nonneg)
qed

text \<open>
  Claim C4. On a non-empty filtered list with the selection in range, \<open>showNext\<close> moves
  from the last index to index 0 and otherwise one step right; \<open>showPrev\<close> moves from
  index 0 to the last index and otherwise one step left; on a single-item list both
  leave the selection where it is; and on an empty filtered list both return the state
  unchanged.
\<close>

theorem lightbox_navigation_circular:
  "(filteredList s \<noteq> [] \<and> 0 \<le> currentIndex s \<and> currentIndex s < int (length (filteredList s)) \<longrightarrow>
      currentIndex (showNext s) =
        (if currentIndex s = int (length (filteredList s)) - 1 then 0 else currentIndex s + 1) \<and>
      currentIndex (showPrev s) =
        (if currentIndex s = 0 then int (length (filteredList s)) - 1 else currentIndex s - 1) \<and>
      (length (filteredList s) = 1 \<longrightarrow>
         currentIndex (showNext s) = currentIndex s \<and> currentIndex (showPrev s) = currentIndex s)) \<and>
   (filteredList s = [] \<longrightarrow> showNext s = s \<and> showPrev s = s)"
proof (intro conjI impI)
  assume "filteredList s = []"
  then show "showNext s = s" and "showPrev s = s"
    by (simp_all add: showNext_def showPrev_def)
next
  assume a: "filteredList s \<noteq> [] \<and> 0 \<le> currentIndex s \<and>
             currentIndex s < int (length (filteredList s))"
  let ?n = "int (length (filteredList s))"
  let ?i = "currentIndex s"
  from a have n: "currentIndex (showNext s) = (?i + 1) mod ?n"
    by (simp add: currentIndex_showNext)
  from a have p: "currentIndex (showPrev s) = (?i - 1 + ?n) mod ?n"
    by (simp add: currentIndex_showPrev)
  from a n show nx: "currentIndex (showNext s) = (if ?i = ?n - 1 then 0 else ?i + 1)"
    by simp
  have "(?i - 1 + ?n) mod ?n = (if ?i = 0 then ?n - 1 else ?i - 1)"
  proof (cases "?i = 0")
    case True
    then have e: "?i - 1 + ?n = ?n - 1" by simp
    from a have "(?n - 1) mod ?n = ?n - 1" by (intro mod_pos_pos_trivial) auto
    with True e show ?thesis by metis
  next
    case False
    with a have "(?i - 1) mod ?n = ?i - 1" by (intro mod_pos_pos_trivial) auto
    with False show ?thesis by simp
  qed
  with p show pv: "currentIndex (showPrev s) = (if ?i = 0 then ?n - 1 else ?i - 1)"
    by (simp only:)
  assume one: "length (filteredList s) = 1"
  with a have "?i = 0" by simp
  with one nx pv show "currentIndex (showNext s) = ?i" and "currentIndex (showPrev s) = ?i"
    by simp_all
qed

theorem lightbox_navigation_circular_witness:
  "currentIndex (showNext ((initial_state IMAGES [] Map.empty [] [])\<lparr>currentIndex := 19\<rparr>)) = 0 \<and>
   currentIndex (showPrev (initial_state IMAGES [] Map.empty [] [])) = 19 \<and>
   currentIndex (showNext ((initial_state IMAGES [] Map.empty [] [])\<lparr>filteredList := [hd IMAGES]\<rparr>)) = 0 \<and>
   currentIndex (showPrev ((initial_state IMAGES [] Map.empty [] [])\<lparr>filteredList := [hd IMAGES]\<rparr>)) = 0 \<and>
   showNext ((initial_state IMAGES [] Map.empty [] [])\<lparr>filteredList := []\<rparr>) =
     (initial_state IMAGES [] Map.empty [] [])\<lparr>filteredList := []\<rparr> \<and>
   showPrev ((initial_state IMAGES [] Map.empty [] [])\<lparr>filteredList := []\<rparr>) =
     (initial_state IMAGES [] Map.empty [] [])\<lparr>filteredList := []\<rparr>"
proof -
  let ?s = "initial_state IMAGES [] Map.empty [] []"
  have f: "filteredList ?s = IMAGES" "currentIndex ?s = 0"
    by simp_all
  have a: "currentIndex (showNext (?s\<lparr>currentIndex := 19\<rparr>)) = 0"
    using lightbox_navigation_circular [of "?s\<lparr>currentIndex := 19\<rparr>", THEN conjunct1]
    by (simp add: f length_IMAGES IMAGES_not_Nil)
  have b: "currentIndex (showPrev ?s) = 19"
    using lightbox_navigation_circular [of ?s, THEN conjunct1]
    by (simp add: f length_IMAGES IMAGES_not_Nil)
  have c: "currentIndex (showNext (?s\<lparr>filteredList := [hd IMAGES]\<rparr>)) = 0"
          "currentIndex (showPrev (?s\<lparr>filteredList := [hd IMAGES]\<rparr>)) = 0"
    using lightbox_navigation_circular [of "?s\<lparr>filteredList := [hd IMAGES]\<rparr>", THEN conjunct1]
    by (simp_all add: f)
  have e: "filteredList (?s\<lparr>filteredList := []\<rparr>) = []"
    by simp
  note d = lightbox_navigation_circular [of "?s\<lparr>filteredList := []\<rparr>", THEN conjunct2, rule_format, OF e]
  from a b c d show ?thesis by (intro conjI) (erule conjunct1 conjunct2 | assumption)+
qed

text \<open>
  Claim C10. On a non-empty filtered list, from any non-negative selection index, also
  one beyond the end of the list, one call of \<open>showNext\<close> or of \<open>showPrev\<close> leaves the
  selection inside the list.
\<close>

theorem navigation_restores_range:
  assumes "filteredList s \<noteq> []" and "0 \<le> currentIndex s"
  shows "0 \<le> currentIndex (showNext s) \<and>
         currentIndex (showNext s) < int (length (filteredList (showNext s))) \<and>
         0 \<le> currentIndex (showPrev s) \<and>
         currentIndex (showPrev s) < int (length (filteredList (showPrev s)))"
proof -
  from assms(1) have pos: "0 < int (length (filteredList s))" by simp
  have fl: "filteredList (showNext s) = filteredList s" "filteredList (showPrev s) = filteredList s"
    by (simp_all add: showNext_def showPrev_def)
  show ?thesis
    using pos by (simp add: fl currentIndex_showNext currentIndex_showPrev assms)
qed

theorem navigation_restores_range_witness:
  "currentIndex (showNext ((initial_state IMAGES [] Map.empty [] [])\<lparr>currentIndex := 57\<rparr>)) = 18 \<and>
   currentIndex (showPrev ((initial_state IMAGES [] Map.empty [] [])\<lparr>currentIndex := 57\<rparr>)) = 16 \<and>
   length (filteredList (showNext ((initial_state IMAGES [] Map.empty [] [])\<lparr>currentIndex := 57\<rparr>))) = 20"
proof -
  let ?s = "(initial_state IMAGES [] Map.empty [] [])\<lparr>currentIndex := 57\<rparr>"
  have f: "filteredList ?s = IMAGES" "currentIndex ?s = 57"
    by simp_all
  have h: "filteredList ?s \<noteq> []" "0 \<le> currentIndex ?s"
    by (simp_all add: f IMAGES_not_Nil)
  have v: "currentIndex (showNext ?s) = 18" "currentIndex (showPrev ?s) = 16"
          "length (filteredList (showNext ?s)) = 20"
    by (simp_all add: currentIndex_showNext currentIndex_showPrev h f length_IMAGES
          showNext_def IMAGES_not_Nil js_rem_def)
  from navigation_restores_range [OF h] v show ?thesis by simp
qed


section \<open>Properties of the filter and sort engine\<close>

lemma includes_str_sublist: "includes_str s q \<longleftrightarrow> sublist q s"
  by (induction s) (auto simp: sublist_Cons_right)

lemma mset_insert_sorted: "mset (insert_sorted cmp x ys) = add_mset x (mset ys)"
  by (induction ys) simp_all

lemma mset_Array_sort: "mset (Array_sort cmp xs) = mset xs"
  by (induction xs) (simp_all add: Array_sort_def mset_insert_sorted)

lemma set_Array_sort: "set (Array_sort cmp xs) = set xs"
  using mset_Array_sort [of cmp xs] by (metis set_mset_mset)

lemma length_Array_sort: "length (Array_sort cmp xs) = length xs"
  using mset_Array_sort [of cmp xs] by (metis size_mset)

lemma Array_sort_Cons: "Array_sort cmp (x # xs) = insert_sorted cmp x (Array_sort cmp xs)"
  by (simp add: Array_sort_def)

lemma Array_sort_all_equal:
  assumes "\<And>a b. SortCompare cmp a b \<le> 0"
  shows "Array_sort cmp xs = xs"
proof (induction xs)
  case Nil
  show ?case by (simp add: Array_sort_def)
next
  case (Cons x xs)
  then show ?case using assms by (cases xs) (simp_all add: Array_sort_Cons)
qed

lemma set_insert_sorted: "set (insert_sorted cmp x ys) = insert x (set ys)"
  using mset_insert_sorted [of cmp x ys] by (metis set_mset_add_mset_insert set_mset_mset)

lemma sorted_insert_sorted:
  assumes tot: "\<And>b. b \<in> set ys \<Longrightarrow> R x b \<or> R b x"
    and trans: "\<And>b c. b \<in> set ys \<Longrightarrow> c \<in> set ys \<Longrightarrow> R x b \<Longrightarrow> R b c \<Longrightarrow> R x c"
    and cmp: "\<And>b. b \<in> set ys \<Longrightarrow> (SortCompare cmp x b \<le> 0) = R x b"
    and srt: "sorted_wrt R ys"
  shows "sorted_wrt R (insert_sorted cmp x ys)"
  using assms
proof (induction ys)
  case Nil
  show ?case by simp
next
  case (Cons y ys)
  from Cons.prems(4) have tail: "sorted_wrt R ys" and head: "\<And>c. c \<in> set ys \<Longrightarrow> R y c"
    by simp_all
  show ?case
  proof (cases "SortCompare cmp x y \<le> 0")
    case True
    then have xy: "R x y" using Cons.prems(3) [of y] by simp
    have "R x c" if "c \<in> set ys" for c
      using Cons.prems(2) [of y c] that xy head [OF that] by simp
    with True xy Cons.prems(4) show ?thesis by simp
  next
    case False
    then have nxy: "\<not> R x y" using Cons.prems(3) [of y] by simp
    then have yx: "R y x" using Cons.prems(1) [of y] by simp
    have "sorted_wrt R (insert_sorted cmp x ys)"
    proof (rule Cons.IH)
      show "R x b \<or> R b x" if "b \<in> set ys" for b
        using Cons.prems(1) [of b] that by simp
      show "R x c" if "b \<in> set ys" "c \<in> set ys" "R x b" "R b c" for b c
        using Cons.prems(2) [of b c] that by simp
      show "(SortCompare cmp x b \<le> 0) = R x b" if "b \<in> set ys" for b
        using Cons.prems(3) [of b] that by simp
      show "sorted_wrt R ys" by (rule tail)
    qed
    with False yx head show ?thesis
      by (simp add: set_insert_sorted)
  qed
qed

lemma sorted_Array_sort:
  assumes tot: "\<And>a b. a \<in> set xs \<Longrightarrow> b \<in> set xs \<Longrightarrow> R a b \<or> R b a"
    and trans: "\<And>a b c. a \<in> set xs \<Longrightarrow> b \<in> set xs \<Longrightarrow> c \<in> set xs \<Longrightarrow> R a b \<Longrightarrow> R b c \<Longrightarrow> R a c"
    and cmp: "\<And>a b. a \<in> set xs \<Longrightarrow> b \<in> set xs \<Longrightarrow> (SortCompare cmp a b \<le> 0) = R a b"
  shows "sorted_wrt R (Array_sort cmp xs)"
  using assms
proof (induction xs)
  case Nil
  show ?case by (simp add: Array_sort_def)
next
  case (Cons x xs)
  have ih: "sorted_wrt R (Array_sort cmp xs)"
  proof (rule Cons.IH)
    show "R a b \<or> R b a" if "a \<in> set xs" "b \<in> set xs" for a b
      using Cons.prems(1) [of a b] that by simp
    show "R a c" if "a \<in> set xs" "b \<in> set xs" "c \<in> set xs" "R a b" "R b c" for a b c
      using Cons.prems(2) [of a b c] that by simp
    show "(SortCompare cmp a b \<le> 0) = R a b" if "a \<in> set xs" "b \<in> set xs" for a b
      using Cons.prems(3) [of a b] that by simp
  qed
  show ?case
    unfolding Array_sort_Cons
  proof (rule sorted_insert_sorted)
    show "R x b \<or> R b x" if "b \<in> set (Array_sort cmp xs)" for b
      using Cons.prems(1) [of x b] that by (simp add: set_Array_sort)
    show "R x c"
      if "b \<in> set (Array_sort cmp xs)" "c \<in> set (Array_sort cmp xs)" "R x b" "R b c" for b c
      using Cons.prems(2) [of x b c] that by (simp add: set_Array_sort)
    show "(SortCompare cmp x b \<le> 0) = R x b" if "b \<in> set (Array_sort cmp xs)" for b
      using Cons.prems(3) [of x b] that by (simp add: set_Array_sort)
    show "sorted_wrt R (Array_sort cmp xs)" by (rule ih)
  qed
qed

lemma filter_insert_sorted:
  assumes "\<And>y. y \<in> set ys \<Longrightarrow> P x \<Longrightarrow> P y \<Longrightarrow> SortCompare cmp x y \<le> 0"
  shows "filter P (insert_sorted cmp x ys) = filter P (x # ys)"
  using assms
proof (induction ys)
  case Nil
  show ?case by simp
next
  case (Cons y ys)
  have ih: "filter P (insert_sorted cmp x ys) = filter P (x # ys)"
    by (rule Cons.IH) (use Cons.prems in simp)
  show ?case
  proof (cases "SortCompare cmp x y \<le> 0")
    case True
    then show ?thesis by simp
  next
    case False
    then have "\<not> (P x \<and> P y)" using Cons.prems [of y] by auto
    with False ih show ?thesis by auto
  qed
qed

lemma filter_Array_sort:
  assumes "\<And>a b. a \<in> set xs \<Longrightarrow> b \<in> set xs \<Longrightarrow> P a \<Longrightarrow> P b \<Longrightarrow> SortCompare cmp a b \<le> 0"
  shows "filter P (Array_sort cmp xs) = filter P xs"
  using assms
proof (induction xs)
  case Nil
  show ?case by (simp add: Array_sort_def)
next
  case (Cons x xs)
  have ih: "filter P (Array_sort cmp xs) = filter P xs"
    by (rule Cons.IH) (use Cons.prems in simp)
  have "filter P (insert_sorted cmp x (Array_sort cmp xs)) = filter P (x # Array_sort cmp xs)"
    by (rule filter_insert_sorted) (use Cons.prems in \<open>simp add: set_Array_sort\<close>)
  with ih show ?case by (simp add: Array_sort_Cons)
qed

lemma SortCompare_newest:
  "Date_parse (date a) \<noteq> None \<Longrightarrow> Date_parse (date b) \<noteq> None \<Longrightarrow>
   SortCompare (compareFn lc ''newest'') a b = dateKey b - dateKey a"
  by (auto simp: SortCompare_def compareFn_def date_minus_def dateKey_def)

lemma SortCompare_oldest:
  "Date_parse (date a) \<noteq> None \<Longrightarrow> Date_parse (date b) \<noteq> None \<Longrightarrow>
   SortCompare (compareFn lc ''oldest'') a b = dateKey a - dateKey b"
  by (auto simp: SortCompare_def compareFn_def date_minus_def dateKey_def)

lemma SortCompare_popular:
  "SortCompare (compareFn lc ''popular'') a b = popularity b - popularity a"
  by (simp add: SortCompare_def compareFn_def)

lemma SortCompare_name:
  "SortCompare (compareFn lc ''name'') a b = lc (title a) (title b)"
  by (simp add: SortCompare_def compareFn_def)

lemma SortCompare_other:
  "m \<notin> {''newest'', ''oldest'', ''popular'', ''name''} \<Longrightarrow> SortCompare (compareFn lc m) a b = 0"
  by (simp add: SortCompare_def compareFn_def)

lemma consistent_total: "consistent lc \<Longrightarrow> lc a b \<le> 0 \<or> lc b a \<le> 0"
  unfolding consistent_def by (metis less_le_not_le linorder_le_cases)

lemma consistent_trans: "consistent lc \<Longrightarrow> lc a b \<le> 0 \<Longrightarrow> lc b c \<le> 0 \<Longrightarrow> lc a c \<le> 0"
  unfolding consistent_def by blast

lemma consistent_sym: "consistent lc \<Longrightarrow> lc a b = 0 \<Longrightarrow> lc b a = 0"
  unfolding consistent_def by (metis less_irrefl linorder_neqE_linordered_idom)

lemma sort_newest:
  assumes "\<forall>r\<in>set xs. Date_parse (date r) \<noteq> None"
  shows "sorted_wrt (\<lambda>a b. dateKey b \<le> dateKey a) (Array_sort (compareFn lc ''newest'') xs)"
    and "filter (\<lambda>r. dateKey r = k) (Array_sort (compareFn lc ''newest'') xs) =
         filter (\<lambda>r. dateKey r = k) xs"
proof -
  show "sorted_wrt (\<lambda>a b. dateKey b \<le> dateKey a) (Array_sort (compareFn lc ''newest'') xs)"
    by (rule sorted_Array_sort) (use assms in \<open>auto simp: SortCompare_newest\<close>)
  show "filter (\<lambda>r. dateKey r = k) (Array_sort (compareFn lc ''newest'') xs) =
        filter (\<lambda>r. dateKey r = k) xs"
    by (rule filter_Array_sort) (use assms in \<open>simp add: SortCompare_newest\<close>)
qed

lemma sort_oldest:
  assumes "\<forall>r\<in>set xs. Date_parse (date r) \<noteq> None"
  shows "sorted_wrt (\<lambda>a b. dateKey a \<le> dateKey b) (Array_sort (compareFn lc ''oldest'') xs)"
    and "filter (\<lambda>r. dateKey r = k) (Array_sort (compareFn lc ''oldest'') xs) =
         filter (\<lambda>r. dateKey r = k) xs"
proof -
  show "sorted_wrt (\<lambda>a b. dateKey a \<le> dateKey b) (Array_sort (compareFn lc ''oldest'') xs)"
    by (rule sorted_Array_sort) (use assms in \<open>auto simp: SortCompare_oldest\<close>)
  show "filter (\<lambda>r. dateKey r = k) (Array_sort (compareFn lc ''oldest'') xs) =
        filter (\<lambda>r. dateKey r = k) xs"
    by (rule filter_Array_sort) (use assms in \<open>simp add: SortCompare_oldest\<close>)
qed

lemma sort_popular:
  shows "sorted_wrt (\<lambda>a b. popularity b \<le> popularity a) (Array_sort (compareFn lc ''popular'') xs)"
    and "filter (\<lambda>r. popularity r = k) (Array_sort (compareFn lc ''popular'') xs) =
         filter (\<lambda>r. popularity r = k) xs"
proof -
  show "sorted_wrt (\<lambda>a b. popularity b \<le> popularity a) (Array_sort (compareFn lc ''popular'') xs)"
    by (rule sorted_Array_sort) (auto simp: SortCompare_popular)
  show "filter (\<lambda>r. popularity r = k) (Array_sort (compareFn lc ''popular'') xs) =
        filter (\<lambda>r. popularity r = k) xs"
    by (rule filter_Array_sort) (simp add: SortCompare_popular)
qed

lemma sort_name:
  assumes c: "consistent lc"
  shows "sorted_wrt (\<lambda>a b. lc (title a) (title b) \<le> 0) (Array_sort (compareFn lc ''name'') xs)"
    and "filter (\<lambda>r. lc (title r) t = 0) (Array_sort (compareFn lc ''name'') xs) =
         filter (\<lambda>r. lc (title r) t = 0) xs"
proof -
  show "sorted_wrt (\<lambda>a b. lc (title a) (title b) \<le> 0) (Array_sort (compareFn lc ''name'') xs)"
  proof (rule sorted_Array_sort)
    show "lc (title a) (title b) \<le> 0 \<or> lc (title b) (title a) \<le> 0" for a b :: image
      by (rule consistent_total [OF c])
    show "lc (title a) (title d) \<le> 0"
      if "lc (title a) (title b) \<le> 0" "lc (title b) (title d) \<le> 0" for a b d :: image
      using that by (rule consistent_trans [OF c])
    show "(SortCompare (compareFn lc ''name'') a b \<le> 0) = (lc (title a) (title b) \<le> 0)" for a b :: image
      by (simp add: SortCompare_name)
  qed
  show "filter (\<lambda>r. lc (title r) t = 0) (Array_sort (compareFn lc ''name'') xs) =
        filter (\<lambda>r. lc (title r) t = 0) xs"
  proof (rule filter_Array_sort)
    fix a b :: image assume "lc (title a) t = 0" "lc (title b) t = 0"
    then have "lc (title a) t \<le> 0" "lc t (title b) \<le> 0"
      using consistent_sym [OF c] by simp_all
    then show "SortCompare (compareFn lc ''name'') a b \<le> 0"
      unfolding SortCompare_name by (rule consistent_trans [OF c])
  qed
qed

lemma sort_other:
  assumes "m \<notin> {''newest'', ''oldest'', ''popular'', ''name''}"
  shows "Array_sort (compareFn lc m) xs = xs"
  by (rule Array_sort_all_equal) (simp add: SortCompare_other [OF assms])

lemma codeUnitCompare_refl: "codeUnitCompare a a = 0"
  by (induction a) simp_all

lemma codeUnitCompare_swap: "(codeUnitCompare a b < 0) = (0 < codeUnitCompare b a)"
proof (induction a b rule: codeUnitCompare.induct)
  case (4 x xs y ys)
  consider "(of_char x :: nat) < of_char y" | "(of_char y :: nat) < of_char x"
    | "\<not> (of_char x :: nat) < of_char y" "\<not> (of_char y :: nat) < of_char x"
    by linarith
  then show ?case
  proof cases
    case 1 then show ?thesis by simp
  next
    case 2 then show ?thesis by simp
  next
    case 3 with 4 show ?thesis by simp
  qed
qed simp_all


lemma codeUnitCompare_Cons_le:
  "(codeUnitCompare (x # xs) (y # ys) \<le> 0) =
   ((of_char x :: nat) < of_char y \<or>
    ((of_char x :: nat) = of_char y \<and> codeUnitCompare xs ys \<le> 0))"
  by auto

lemma codeUnitCompare_trans:
  "codeUnitCompare a b \<le> 0 \<Longrightarrow> codeUnitCompare b c \<le> 0 \<Longrightarrow> codeUnitCompare a c \<le> 0"
proof (induction a arbitrary: b c)
  case Nil
  then show ?case by (cases c) simp_all
next
  case (Cons x xs)
  from Cons.prems(1) obtain y ys where b: "b = y # ys" by (cases b) auto
  from Cons.prems(2) b obtain z zs where c: "c = z # zs" by (cases c) auto
  from Cons.prems b c
  have 1: "(of_char x :: nat) < of_char y \<or>
           ((of_char x :: nat) = of_char y \<and> codeUnitCompare xs ys \<le> 0)"
    and 2: "(of_char y :: nat) < of_char z \<or>
           ((of_char y :: nat) = of_char z \<and> codeUnitCompare ys zs \<le> 0)"
    by (simp_all only: codeUnitCompare_Cons_le)
  have "(of_char x :: nat) < of_char z \<or>
        ((of_char x :: nat) = of_char z \<and> codeUnitCompare xs zs \<le> 0)"
    using 1 2 Cons.IH [of ys zs] by auto
  then show ?case
    unfolding c by (simp only: codeUnitCompare_Cons_le)
qed

lemma consistent_codeUnitCompare: "consistent codeUnitCompare"
  unfolding consistent_def
  using codeUnitCompare_refl codeUnitCompare_swap codeUnitCompare_trans by blast

lemmas Date_eval = Date_parse_def digit_val_def days_in_month_def is_leap_def days_from_civil_def Let_def

lemma dates_IMAGES: "list_all (\<lambda>r. Date_parse (date r) \<noteq> None) IMAGES"
  by (simp add: IMAGES_def mk_def Date_eval)

text \<open>
  Claim C2. The ordering step \<open>filteredList.sort\<close> with the script's comparator, on
  any list \<open>xs\<close>: for \<open>newest\<close> the result is in descending and for \<open>oldest\<close> in
  ascending order of the parsed dates (for records whose dates parse), for \<open>popular\<close> in
  descending order of popularity, for \<open>name\<close> in the order of the collation \<open>lc\<close> on
  titles (for a consistent collation), and for any other mode it is \<open>xs\<close> itself. In
  every mode the result is a rearrangement of \<open>xs\<close>, and the sort is stable: the records
  with one and the same sort key stand in the result in the order they have in \<open>xs\<close>.
\<close>

theorem sort_modes_stable:
  "((\<forall>r\<in>set xs. Date_parse (date r) \<noteq> None) \<longrightarrow>
      sorted_wrt (\<lambda>a b. dateKey b \<le> dateKey a) (Array_sort (compareFn lc ''newest'') xs) \<and>
      (\<forall>k. filter (\<lambda>r. dateKey r = k) (Array_sort (compareFn lc ''newest'') xs) =
           filter (\<lambda>r. dateKey r = k) xs) \<and>
      sorted_wrt (\<lambda>a b. dateKey a \<le> dateKey b) (Array_sort (compareFn lc ''oldest'') xs) \<and>
      (\<forall>k. filter (\<lambda>r. dateKey r = k) (Array_sort (compareFn lc ''oldest'') xs) =
           filter (\<lambda>r. dateKey r = k) xs)) \<and>
   sorted_wrt (\<lambda>a b. popularity b \<le> popularity a) (Array_sort (compareFn lc ''popular'') xs) \<and>
   (\<forall>k. filter (\<lambda>r. popularity r = k) (Array_sort (compareFn lc ''popular'') xs) =
        filter (\<lambda>r. popularity r = k) xs) \<and>
   (consistent lc \<longrightarrow>
      sorted_wrt (\<lambda>a b. lc (title a) (title b) \<le> 0) (Array_sort (compareFn lc ''name'') xs) \<and>
      (\<forall>t. filter (\<lambda>r. lc (title r) t = 0) (Array_sort (compareFn lc ''name'') xs) =
           filter (\<lambda>r. lc (title r) t = 0) xs)) \<and>
   (m \<notin> {''newest'', ''oldest'', ''popular'', ''name''} \<longrightarrow> Array_sort (compareFn lc m) xs = xs) \<and>
   mset (Array_sort (compareFn lc m) xs) = mset xs"
proof (intro conjI impI allI)
  assume d: "\<forall>r\<in>set xs. Date_parse (date r) \<noteq> None"
  show "sorted_wrt (\<lambda>a b. dateKey b \<le> dateKey a) (Array_sort (compareFn lc ''newest'') xs)"
    by (rule sort_newest(1) [OF d])
  show "filter (\<lambda>r. dateKey r = k) (Array_sort (compareFn lc ''newest'') xs) =
        filter (\<lambda>r. dateKey r = k) xs" for k
    by (rule sort_newest(2) [OF d])
  show "sorted_wrt (\<lambda>a b. dateKey a \<le> dateKey b) (Array_sort (compareFn lc ''oldest'') xs)"
    by (rule sort_oldest(1) [OF d])
  show "filter (\<lambda>r. dateKey r = k) (Array_sort (compareFn lc ''oldest'') xs) =
        filter (\<lambda>r. dateKey r = k) xs" for k
    by (rule sort_oldest(2) [OF d])
next
  show "sorted_wrt (\<lambda>a b. popularity b \<le> popularity a) (Array_sort (compareFn lc ''popular'') xs)"
    by (rule sort_popular(1))
  show "filter (\<lambda>r. popularity r = k) (Array_sort (compareFn lc ''popular'') xs) =
        filter (\<lambda>r. popularity r = k) xs" for k
    by (rule sort_popular(2))
next
  assume c: "consistent lc"
  show "sorted_wrt (\<lambda>a b. lc (title a) (title b) \<le> 0) (Array_sort (compareFn lc ''name'') xs)"
    by (rule sort_name(1) [OF c])
  show "filter (\<lambda>r. lc (title r) t = 0) (Array_sort (compareFn lc ''name'') xs) =
        filter (\<lambda>r. lc (title r) t = 0) xs" for t
    by (rule sort_name(2) [OF c])
next
  assume "m \<notin> {''newest'', ''oldest'', ''popular'', ''name''}"
  then show "Array_sort (compareFn lc m) xs = xs" by (rule sort_other)
next
  show "mset (Array_sort (compareFn lc m) xs) = mset xs" by (rule mset_Array_sort)
qed

theorem sort_modes_stable_witness:
  "list_all (\<lambda>r. Date_parse (date r) \<noteq> None) IMAGES \<and>
   consistent codeUnitCompare \<and>
   sorted_wrt (\<lambda>a b. dateKey b \<le> dateKey a) (Array_sort (compareFn codeUnitCompare ''newest'') IMAGES) \<and>
   sorted_wrt (\<lambda>a b. dateKey a \<le> dateKey b) (Array_sort (compareFn codeUnitCompare ''oldest'') IMAGES) \<and>
   sorted_wrt (\<lambda>a b. codeUnitCompare (title a) (title b) \<le> 0)
     (Array_sort (compareFn codeUnitCompare ''name'') IMAGES) \<and>
   Array_sort (compareFn codeUnitCompare ''featured'') IMAGES = IMAGES"
proof -
  have d: "\<forall>r\<in>set IMAGES. Date_parse (date r) \<noteq> None"
    using dates_IMAGES by (simp add: list_all_iff)
  have m: "''featured'' \<notin> {''newest'', ''oldest'', ''popular'', ''name''}" by simp
  note t = sort_modes_stable [of IMAGES codeUnitCompare "''featured''"]
  from t d consistent_codeUnitCompare m dates_IMAGES show ?thesis by blast
qed

lemmas str_eval = toLowerCase_def trim_def is_white_def lower_char_def char_of_def bit_0

lemma filteredList_applyFiltersSearchSort:
  "filteredList (applyFiltersSearchSort imgs lc s) =
     Array_sort (compareFn lc (sortValue s))
       (filter (matches (activeCategory s) (toLowerCase (trim (searchValue s)))) imgs)"
  by (simp add: applyFiltersSearchSort_def Let_def)

lemma matches_iff:
  "matches cat q img \<longleftrightarrow>
     (cat = ''all'' \<or> category img = cat) \<and> (q = [] \<or> sublist q (haystack img))"
  by (auto simp: matches_def haystack_def includes_str_sublist Let_def)

text \<open>
  Claim C1, as the specification words it, fails: the script searches the three fields
  joined by single spaces, not their plain concatenation. The query \<open>forest morning\<close>
  selects the first record of the catalog, whose title ends in \<open>Forest\<close> and whose
  description starts with \<open>Morning\<close>, although the query is no substring of
  \<open>misty forestmorning mist ...\<close>.
\<close>

theorem plain_concatenation_counterexample:
  "hd IMAGES \<in> set (filteredList
      (applyFiltersSearchSort IMAGES codeUnitCompare
         (initial_state IMAGES [] Map.empty ''forest morning'' ''newest''))) \<and>
   \<not> spec_matches ''all'' (toLowerCase (trim ''forest morning'')) (hd IMAGES)"
proof -
  have q: "toLowerCase (trim ''forest morning'') = ''forest morning''"
    by (simp add: str_eval)
  have h: "hd IMAGES = mk ''1'' ''Misty Forest'' ''Morning mist in evergreen forest.'' ''nature''
             ''image/photo1.avif'' ''2024-11-05'' 80"
    by (simp add: IMAGES_def)
  have m: "matches ''all'' ''forest morning'' (hd IMAGES)"
    unfolding h by (simp add: matches_def mk_def str_eval)
  have n: "\<not> spec_matches ''all'' ''forest morning'' (hd IMAGES)"
    unfolding h spec_matches_def includes_str_sublist [symmetric]
    by (simp add: mk_def str_eval)
  have "hd IMAGES \<in> set IMAGES"
    using IMAGES_not_Nil by simp
  with m have "hd IMAGES \<in> set (filter (matches ''all'' ''forest morning'') IMAGES)"
    by simp
  then have "hd IMAGES \<in> set (filteredList
      (applyFiltersSearchSort IMAGES codeUnitCompare
         (initial_state IMAGES [] Map.empty ''forest morning'' ''newest'')))"
    by (simp add: filteredList_applyFiltersSearchSort set_Array_sort q)
  with n q show ?thesis by simp
qed

text \<open>
  Claim C1, amended. For every catalog, active category, search string and sort mode,
  the filtered list holds exactly the catalog entries whose category is the active one
  (or the active category is \<open>all\<close>) and for which the trimmed, lower-cased search
  string is empty or a substring of the lower-cased text \<open>title description category\<close>,
  the three fields joined by single spaces; each such entry occurs as often as in the
  catalog, and no other entry occurs.
\<close>

theorem applyFiltersSearchSort_exact:
  "mset (filteredList (applyFiltersSearchSort imgs lc s)) =
     filter_mset
       (\<lambda>img. (activeCategory s = ''all'' \<or> category img = activeCategory s) \<and>
              (toLowerCase (trim (searchValue s)) = [] \<or>
               sublist (toLowerCase (trim (searchValue s))) (haystack img)))
       (mset imgs) \<and>
   set (filteredList (applyFiltersSearchSort imgs lc s)) =
     {img \<in> set imgs.
        (activeCategory s = ''all'' \<or> category img = activeCategory s) \<and>
        (toLowerCase (trim (searchValue s)) = [] \<or>
         sublist (toLowerCase (trim (searchValue s))) (haystack img))}"
proof -
  let ?P = "\<lambda>img. (activeCategory s = ''all'' \<or> category img = activeCategory s) \<and>
              (toLowerCase (trim (searchValue s)) = [] \<or>
               sublist (toLowerCase (trim (searchValue s))) (haystack img))"
  have e: "matches (activeCategory s) (toLowerCase (trim (searchValue s))) = ?P"
    by (rule ext) (simp add: matches_iff)
  have m: "mset (filteredList (applyFiltersSearchSort imgs lc s)) = filter_mset ?P (mset imgs)"
    by (simp only: filteredList_applyFiltersSearchSort mset_Array_sort e mset_filter)
  have "set_mset (mset (filteredList (applyFiltersSearchSort imgs lc s))) =
        set_mset (filter_mset ?P (mset imgs))"
    by (simp only: m)
  then have "set (filteredList (applyFiltersSearchSort imgs lc s)) = {img \<in> set imgs. ?P img}"
    by (simp only: set_mset_mset set_mset_filter)
  with m show ?thesis by (rule conjI)
qed

theorem applyFiltersSearchSort_exact_witness:
  "map id' (filteredList
      (applyFiltersSearchSort IMAGES codeUnitCompare
         (initial_state IMAGES [] Map.empty ''  BriDge '' ''newest''))) = [''9'']"
proof -
  let ?s = "initial_state IMAGES [] Map.empty ''  BriDge '' ''newest''"
  have q: "toLowerCase (trim ''  BriDge '') = ''bridge''"
    by (simp add: str_eval)
  have f: "filter (matches ''all'' ''bridge'') IMAGES = [IMAGES ! 8]"
    by (simp add: IMAGES_def mk_def matches_def str_eval)
  have "filteredList (applyFiltersSearchSort IMAGES codeUnitCompare ?s) = [IMAGES ! 8]"
    by (simp add: filteredList_applyFiltersSearchSort q f Array_sort_def)
  moreover have "id' (IMAGES ! 8) = ''9''"
    by (simp add: IMAGES_def mk_def)
  moreover note applyFiltersSearchSort_exact [of IMAGES codeUnitCompare ?s]
  ultimately show ?thesis by simp
qed

section \<open>Properties of pagination\<close>

lemma length_pageItems:
  "length (pageItems s) = min PAGE_SIZE (length (filteredList s) - PAGE_SIZE * currentPage s)"
  by (simp add: pageItems_def slice_def Let_def mult.commute)

lemma renderGalleryPage_sel [simp]:
  "filteredList (renderGalleryPage s) = filteredList s"
  "currentPage (renderGalleryPage s) = currentPage s + 1"
  "favorites (renderGalleryPage s) = favorites s"
  "loadMoreShown (renderGalleryPage s) =
     (currentPage s * PAGE_SIZE + PAGE_SIZE < length (filteredList s))"
  by (simp_all add: renderGalleryPage_def Let_def)

lemma rendered_renderGalleryPage:
  "rendered (renderGalleryPage s) =
     (if filteredList s = [] then 0 else rendered s + length (pageItems s))"
proof -
  have "filter (\<lambda>n. n \<noteq> NoImagesFound) (map (\<lambda>(img, idx). createGalleryItem s img (k + idx)) ps) =
        map (\<lambda>(img, idx). createGalleryItem s img (k + idx)) ps" for k and ps :: "(image \<times> nat) list"
    by (induction ps) (auto simp: createGalleryItem_def)
  then show ?thesis
    by (simp add: rendered_def renderGalleryPage_def Let_def)
qed

lemma grid_in_step_renderGalleryPage:
  assumes "grid_in_step s"
  shows "grid_in_step (renderGalleryPage s)"
  using assms
  by (auto simp: grid_in_step_def rendered_renderGalleryPage length_pageItems PAGE_SIZE_def)

lemma grid_in_step_cleared:
  "grid_in_step (s\<lparr>filteredList := fl, currentPage := 0, gallery := []\<rparr>)"
  by (simp add: grid_in_step_def rendered_def)

lemma grid_in_step_pages:
  "grid_in_step ((renderGalleryPage ^^ n) (s\<lparr>filteredList := fl, currentPage := 0, gallery := []\<rparr>)) \<and>
   currentPage ((renderGalleryPage ^^ n) (s\<lparr>filteredList := fl, currentPage := 0, gallery := []\<rparr>)) = n \<and>
   filteredList ((renderGalleryPage ^^ n) (s\<lparr>filteredList := fl, currentPage := 0, gallery := []\<rparr>)) = fl"
  by (induction n) (simp_all add: grid_in_step_cleared grid_in_step_renderGalleryPage)

lemma grid_in_step_resetAndRender: "grid_in_step (resetAndRender imgs lc s)"
proof -
  have "grid_in_step (applyFiltersSearchSort imgs lc (s\<lparr>gallery := []\<rparr>))"
    by (simp add: grid_in_step_def rendered_def applyFiltersSearchSort_def Let_def)
  then show ?thesis
    unfolding resetAndRender_def by (rule grid_in_step_renderGalleryPage)
qed

text \<open>
  Claim C3. One call of \<open>renderGalleryPage\<close> renders
  \<open>min PAGE_SIZE (length filteredList - PAGE_SIZE * currentPage)\<close> new items, the
  difference floored at 0, and never more than \<open>PAGE_SIZE = 8\<close>; they are appended to the
  grid. When the grid holds the pages rendered so far, as it does in every state the
  page can reach, then after the call the load-more button is shown if and only if fewer
  items are rendered than the filtered list has, and the grid again holds the pages
  rendered so far.
\<close>

theorem renderGalleryPage_page:
  "PAGE_SIZE = 8 \<and>
   length (pageItems s) = min PAGE_SIZE (length (filteredList s) - PAGE_SIZE * currentPage s) \<and>
   length (pageItems s) \<le> PAGE_SIZE \<and>
   rendered (renderGalleryPage s) =
     (if filteredList s = [] then 0 else rendered s + length (pageItems s)) \<and>
   (grid_in_step s \<longrightarrow>
      (loadMoreShown (renderGalleryPage s) \<longleftrightarrow>
         rendered (renderGalleryPage s) < length (filteredList (renderGalleryPage s))) \<and>
      grid_in_step (renderGalleryPage s))"
proof (intro conjI impI)
  show "PAGE_SIZE = 8" by (simp add: PAGE_SIZE_def)
  show "length (pageItems s) = min PAGE_SIZE (length (filteredList s) - PAGE_SIZE * currentPage s)"
    by (rule length_pageItems)
  then show "length (pageItems s) \<le> PAGE_SIZE" by simp
  show "rendered (renderGalleryPage s) =
          (if filteredList s = [] then 0 else rendered s + length (pageItems s))"
    by (rule rendered_renderGalleryPage)
next
  assume g: "grid_in_step s"
  then show g': "grid_in_step (renderGalleryPage s)"
    by (rule grid_in_step_renderGalleryPage)
  then have "rendered (renderGalleryPage s) =
               min (currentPage s * PAGE_SIZE + PAGE_SIZE) (length (filteredList s))"
    by (simp add: grid_in_step_def)
  then show "loadMoreShown (renderGalleryPage s) \<longleftrightarrow>
               rendered (renderGalleryPage s) < length (filteredList (renderGalleryPage s))"
    by auto
qed

lemma applyFiltersSearchSort_sel [simp]:
  "currentPage (applyFiltersSearchSort imgs lc s) = 0"
  "gallery (applyFiltersSearchSort imgs lc s) = gallery s"
  "favorites (applyFiltersSearchSort imgs lc s) = favorites s"
  by (simp_all add: applyFiltersSearchSort_def Let_def)

lemma filteredList_unfiltered:
  assumes "activeCategory s = ''all''" and "searchValue s = []"
    and "sortValue s \<notin> {''newest'', ''oldest'', ''popular'', ''name''}"
  shows "filteredList (applyFiltersSearchSort imgs lc s) = imgs"
proof -
  have "toLowerCase (trim []) = []" by (simp add: str_eval)
  moreover have "matches ''all'' [] = (\<lambda>img. True)"
    by (rule ext) (simp add: matches_def)
  ultimately show ?thesis
    using assms by (simp add: filteredList_applyFiltersSearchSort sort_other)
qed

theorem renderGalleryPage_page_witness:
  "grid_in_step (init IMAGES codeUnitCompare (initial_state IMAGES [] Map.empty [] [])) \<and>
   rendered (init IMAGES codeUnitCompare (initial_state IMAGES [] Map.empty [] [])) = 8 \<and>
   loadMoreShown (init IMAGES codeUnitCompare (initial_state IMAGES [] Map.empty [] [])) \<and>
   rendered (renderGalleryPage (init IMAGES codeUnitCompare (initial_state IMAGES [] Map.empty [] []))) = 16 \<and>
   loadMoreShown (renderGalleryPage (init IMAGES codeUnitCompare (initial_state IMAGES [] Map.empty [] []))) \<and>
   rendered (renderGalleryPage (renderGalleryPage
     (init IMAGES codeUnitCompare (initial_state IMAGES [] Map.empty [] [])))) = 20 \<and>
   \<not> loadMoreShown (renderGalleryPage (renderGalleryPage
     (init IMAGES codeUnitCompare (initial_state IMAGES [] Map.empty [] []))))"
proof -
  let ?a = "applyFiltersSearchSort IMAGES codeUnitCompare (initial_state IMAGES [] Map.empty [] [])"
  let ?s1 = "renderGalleryPage ?a"
  let ?s2 = "renderGalleryPage ?s1"
  let ?s3 = "renderGalleryPage ?s2"
  have fl: "filteredList ?a = IMAGES"
    by (rule filteredList_unfiltered) simp_all
  have r0: "rendered ?a = 0" and g0: "grid_in_step ?a"
    by (simp_all add: rendered_def grid_in_step_def)
  note t1 = renderGalleryPage_page [of ?a]
  from t1 g0 have g1: "grid_in_step ?s1" by blast
  from t1 r0 have r1: "rendered ?s1 = 8"
    by (simp add: fl length_IMAGES IMAGES_not_Nil PAGE_SIZE_def)
  from t1 g0 r1 have l1: "loadMoreShown ?s1"
    by (simp add: fl length_IMAGES PAGE_SIZE_def)
  note t2 = renderGalleryPage_page [of ?s1]
  from t2 g1 have g2: "grid_in_step ?s2" by blast
  from t2 r1 have r2: "rendered ?s2 = 16"
    by (simp add: fl length_IMAGES IMAGES_not_Nil PAGE_SIZE_def)
  from t2 g1 r2 have l2: "loadMoreShown ?s2"
    by (simp add: fl length_IMAGES PAGE_SIZE_def)
  note t3 = renderGalleryPage_page [of ?s2]
  from t3 r2 have r3: "rendered ?s3 = 20"
    by (simp add: fl length_IMAGES IMAGES_not_Nil PAGE_SIZE_def)
  from t3 g2 r3 have l3: "\<not> loadMoreShown ?s3"
    by (simp add: fl length_IMAGES PAGE_SIZE_def)
  from g1 r1 l1 r2 l2 r3 l3 show ?thesis
    unfolding init_def by (intro conjI)
qed

lemma rendered_cong: "gallery s' = gallery s \<Longrightarrow> rendered s' = rendered s"
  by (simp add: rendered_def)

lemma grid_in_step_same:
  "grid_in_step s \<Longrightarrow> rendered s' = rendered s \<Longrightarrow> currentPage s' = currentPage s \<Longrightarrow>
   filteredList s' = filteredList s \<Longrightarrow> grid_in_step s'"
  by (simp add: grid_in_step_def)

lemma grid_in_step_init: "gallery s = [] \<Longrightarrow> grid_in_step (init imgs lc s)"
proof -
  assume "gallery s = []"
  then have "grid_in_step (applyFiltersSearchSort imgs lc s)"
    by (simp add: grid_in_step_def rendered_def)
  then show ?thesis
    unfolding init_def by (rule grid_in_step_renderGalleryPage)
qed

section \<open>Properties of favourites\<close>

lemma updateLightboxFavoriteIcon_sel [simp]:
  "favorites (updateLightboxFavoriteIcon s) = favorites s"
  "localStorage (updateLightboxFavoriteIcon s) = localStorage s"
  "gallery (updateLightboxFavoriteIcon s) = gallery s"
  "favoritesList (updateLightboxFavoriteIcon s) = favoritesList s"
  by (simp_all add: updateLightboxFavoriteIcon_def split: option.split)

lemma renderFavoritesSidebar_sel [simp]:
  "favorites (renderFavoritesSidebar imgs s) = favorites s"
  "localStorage (renderFavoritesSidebar imgs s) = localStorage s"
  "gallery (renderFavoritesSidebar imgs s) = gallery s"
  "filteredList (renderFavoritesSidebar imgs s) = filteredList s"
  "currentIndex (renderFavoritesSidebar imgs s) = currentIndex s"
  "favoriteBtnSolid (renderFavoritesSidebar imgs s) = favoriteBtnSolid s"
  by (simp_all add: renderFavoritesSidebar_def updateFavoriteCount_def Let_def)

lemma persistFavorites_sel [simp]:
  "favorites (persistFavorites s) = favorites s"
  "gallery (persistFavorites s) = gallery s"
  "filteredList (persistFavorites s) = filteredList s"
  "currentIndex (persistFavorites s) = currentIndex s"
  "localStorage (persistFavorites s) =
     (localStorage s)(''gallery_favorites'' \<mapsto> JSON_stringify (favorites s))"
  by (simp_all add: persistFavorites_def)

lemma favorites_toggleFavorite:
  "favorites (toggleFavorite imgs imgId btnNode s) =
     (if imgId \<in> set (favorites s) then removeAll imgId (favorites s) else favorites s @ [imgId])"
  by (simp add: toggleFavorite_def Let_def)

lemma localStorage_toggleFavorite:
  "localStorage (toggleFavorite imgs imgId btnNode s) ''gallery_favorites'' =
     Some (JSON_stringify (favorites (toggleFavorite imgs imgId btnNode s)))"
  by (simp add: toggleFavorite_def Let_def)

lemma distinct_toggleFavorite:
  "distinct (favorites s) \<Longrightarrow> distinct (favorites (toggleFavorite imgs imgId btnNode s))"
  by (simp add: favorites_toggleFavorite distinct_removeAll)

text \<open>
  Claim C6. Toggling an id removes it from the favourites set when it is a member and
  adds it otherwise; toggling the same id twice, from any caller, restores the
  membership of every id; and each toggle writes the serialised new set to
  \<open>localStorage\<close> under the favourites key.
\<close>

theorem toggleFavorite_involution:
  "set (favorites (toggleFavorite imgs imgId btnNode s)) =
     (if imgId \<in> set (favorites s) then set (favorites s) - {imgId}
      else insert imgId (set (favorites s))) \<and>
   set (favorites (toggleFavorite imgs imgId btnNode' (toggleFavorite imgs imgId btnNode s))) =
     set (favorites s) \<and>
   localStorage (toggleFavorite imgs imgId btnNode s) ''gallery_favorites'' =
     Some (JSON_stringify (favorites (toggleFavorite imgs imgId btnNode s)))"
proof (intro conjI)
  show 1: "set (favorites (toggleFavorite imgs imgId btnNode s)) =
     (if imgId \<in> set (favorites s) then set (favorites s) - {imgId}
      else insert imgId (set (favorites s)))"
    by (simp add: favorites_toggleFavorite)
  show "set (favorites (toggleFavorite imgs imgId btnNode' (toggleFavorite imgs imgId btnNode s))) =
     set (favorites s)"
    by (auto simp: favorites_toggleFavorite)
  show "localStorage (toggleFavorite imgs imgId btnNode s) ''gallery_favorites'' =
     Some (JSON_stringify (favorites (toggleFavorite imgs imgId btnNode s)))"
    by (rule localStorage_toggleFavorite)
qed

theorem toggleFavorite_involution_witness:
  "favorites (toggleFavorite IMAGES ''3'' None (initial_state IMAGES [''1'', ''3'', ''7''] Map.empty [] [])) =
     [''1'', ''7''] \<and>
   localStorage (toggleFavorite IMAGES ''3'' None (initial_state IMAGES [''1'', ''3'', ''7''] Map.empty [] []))
     ''gallery_favorites'' = Some [CHR ''['', CHR 0x22, CHR ''1'', CHR 0x22, CHR '','',
                                  CHR 0x22, CHR ''7'', CHR 0x22, CHR '']''] \<and>
   set (favorites (toggleFavorite IMAGES ''3'' None
          (toggleFavorite IMAGES ''3'' None (initial_state IMAGES [''1'', ''3'', ''7''] Map.empty [] [])))) =
     {''1'', ''3'', ''7''}"
proof -
  let ?s = "initial_state IMAGES [''1'', ''3'', ''7''] Map.empty [] []"
  have f: "favorites (toggleFavorite IMAGES ''3'' None ?s) = [''1'', ''7'']"
    by (simp add: favorites_toggleFavorite)
  have j: "JSON_stringify [''1'', ''7''] =
           [CHR ''['', CHR 0x22, CHR ''1'', CHR 0x22, CHR '','', CHR 0x22, CHR ''7'', CHR 0x22, CHR '']'']"
    by (simp add: JSON_stringify_def QuoteJSONString_def quote_char_def)
  from toggleFavorite_involution [of IMAGES "''3''" None ?s None] f j
  show ?thesis by simp
qed

section \<open>The nature scenario on the shipped catalog\<close>

lemma nature_filter:
  "filter (matches ''nature'' []) IMAGES =
     [IMAGES ! 0, IMAGES ! 4, IMAGES ! 9, IMAGES ! 13, IMAGES ! 18]"
  by (simp add: IMAGES_def mk_def matches_def)

lemma nature_ids:
  "map id' [IMAGES ! 0, IMAGES ! 4, IMAGES ! 9, IMAGES ! 13, IMAGES ! 18] =
     [''1'', ''5'', ''10'', ''14'', ''19'']"
  by (simp add: IMAGES_def mk_def)

lemma nature_filteredList:
  "filteredList (resetAndRender IMAGES lc (s\<lparr>activeCategory := ''nature'', searchValue := []\<rparr>)) =
     Array_sort (compareFn lc (sortValue s))
       [IMAGES ! 0, IMAGES ! 4, IMAGES ! 9, IMAGES ! 13, IMAGES ! 18]"
proof -
  have "toLowerCase (trim []) = []" by (simp add: str_eval)
  then show ?thesis
    by (simp add: resetAndRender_def filteredList_applyFiltersSearchSort nature_filter)
qed

text \<open>
  Claim C9 as stated fails on its count: the shipped catalog has five records of
  category \<open>nature\<close>, not four.
\<close>

theorem nature_count_counterexample:
  "length (filteredList
     (resetAndRender IMAGES codeUnitCompare
        ((initial_state IMAGES [] Map.empty [] ''newest'')\<lparr>activeCategory := ''nature'', searchValue := []\<rparr>)))
   \<noteq> 4"
  by (simp add: nature_filteredList length_Array_sort)

text \<open>
  Claim C9, amended. On the shipped catalog of 20 records with page size 8, selecting
  the category \<open>nature\<close> with an empty search yields exactly the five nature records,
  ids 1, 5, 10, 14 and 19, in the order the sort mode gives them, all five are rendered
  by the first page, and the load-more button is hidden.
\<close>

theorem nature_scenario:
  "length IMAGES = 20 \<and> PAGE_SIZE = 8 \<and>
   filteredList (resetAndRender IMAGES lc (s\<lparr>activeCategory := ''nature'', searchValue := []\<rparr>)) =
     Array_sort (compareFn lc (sortValue s))
       [IMAGES ! 0, IMAGES ! 4, IMAGES ! 9, IMAGES ! 13, IMAGES ! 18] \<and>
   mset (map id' (filteredList
          (resetAndRender IMAGES lc (s\<lparr>activeCategory := ''nature'', searchValue := []\<rparr>)))) =
     mset [''1'', ''5'', ''10'', ''14'', ''19''] \<and>
   length (filteredList
     (resetAndRender IMAGES lc (s\<lparr>activeCategory := ''nature'', searchValue := []\<rparr>))) = 5 \<and>
   rendered (resetAndRender IMAGES lc (s\<lparr>activeCategory := ''nature'', searchValue := []\<rparr>)) = 5 \<and>
   \<not> loadMoreShown (resetAndRender IMAGES lc (s\<lparr>activeCategory := ''nature'', searchValue := []\<rparr>))"
proof -
  let ?s' = "resetAndRender IMAGES lc (s\<lparr>activeCategory := ''nature'', searchValue := []\<rparr>)"
  let ?a = "applyFiltersSearchSort IMAGES lc (s\<lparr>activeCategory := ''nature'', searchValue := [], gallery := []\<rparr>)"
  let ?five = "[IMAGES ! 0, IMAGES ! 4, IMAGES ! 9, IMAGES ! 13, IMAGES ! 18]"
  have fl: "filteredList ?s' = Array_sort (compareFn lc (sortValue s)) ?five"
    by (rule nature_filteredList)
  have "mset (map id' (filteredList ?s')) = mset (map id' ?five)"
    unfolding fl by (simp only: mset_map mset_Array_sort)
  then have ids: "mset (map id' (filteredList ?s')) = mset [''1'', ''5'', ''10'', ''14'', ''19'']"
    by (simp only: nature_ids)
  have len: "length (filteredList ?s') = 5"
    by (simp add: fl length_Array_sort)
  have s': "?s' = renderGalleryPage ?a"
    by (simp add: resetAndRender_def)
  have la: "length (filteredList ?a) = 5"
    using len by (simp add: s')
  have "rendered ?a = 0" by (simp add: rendered_def)
  with la have rend: "rendered ?s' = 5"
    unfolding s' by (auto simp: rendered_renderGalleryPage length_pageItems PAGE_SIZE_def)
  have more: "\<not> loadMoreShown ?s'"
    unfolding s' using la by (simp add: PAGE_SIZE_def)
  from fl ids len rend more show ?thesis
    by (simp only: length_IMAGES PAGE_SIZE_def simp_thms)
qed

theorem nature_scenario_witness:
  "map id' (filteredList
     (resetAndRender IMAGES codeUnitCompare
        ((initial_state IMAGES [] Map.empty [] ''newest'')\<lparr>activeCategory := ''nature'', searchValue := []\<rparr>))) =
     [''10'', ''5'', ''1'', ''19'', ''14'']"
proof -
  let ?s = "initial_state IMAGES [] Map.empty [] ''newest''"
  have "Array_sort (compareFn codeUnitCompare ''newest'')
          [IMAGES ! 0, IMAGES ! 4, IMAGES ! 9, IMAGES ! 13, IMAGES ! 18] =
        [IMAGES ! 9, IMAGES ! 4, IMAGES ! 0, IMAGES ! 18, IMAGES ! 13]"
    by (simp add: Array_sort_def SortCompare_def compareFn_def date_minus_def Date_eval
          IMAGES_def mk_def)
  moreover have "map id' [IMAGES ! 9, IMAGES ! 4, IMAGES ! 0, IMAGES ! 18, IMAGES ! 13] =
        [''10'', ''5'', ''1'', ''19'', ''14'']"
    by (simp add: IMAGES_def mk_def)
  moreover note nature_scenario [of codeUnitCompare ?s]
  ultimately show ?thesis by simp
qed

section \<open>Agreement of the three views with the favourites set\<close>

lemma gallery_navigation [simp]:
  "gallery (updateLightbox s) = gallery s"
  "gallery (openLightbox s) = gallery s"
  "gallery (openLightboxByIndex i s) = gallery s"
  "favorites (updateLightbox s) = favorites s"
  "favorites (openLightbox s) = favorites s"
  "favorites (openLightboxByIndex i s) = favorites s"
  "filteredList (openLightbox s) = filteredList s"
  "filteredList (openLightboxByIndex i s) = filteredList s"
  by (simp_all add: updateLightbox_def openLightbox_def openLightboxByIndex_def
        split: option.split)

lemma gallery_toggleFavorite:
  "gallery (toggleFavorite imgs imgId btnNode s) =
     set_heart btnNode (imgId \<notin> set (favorites s)) (gallery s)"
  by (simp add: toggleFavorite_def Let_def)

lemma toggleFavorite_sel [simp]:
  "filteredList (toggleFavorite imgs imgId btnNode s) = filteredList s"
  "currentIndex (toggleFavorite imgs imgId btnNode s) = currentIndex s"
  by (simp_all add: toggleFavorite_def Let_def)

lemma lightbox_agrees_updateLightboxFavoriteIcon:
  "lightbox_agrees (updateLightboxFavoriteIcon s)"
  by (simp add: lightbox_agrees_def updateLightboxFavoriteIcon_def split: option.split)

lemma lightbox_agrees_toggleFavorite: "lightbox_agrees (toggleFavorite imgs imgId btnNode s)"
proof -
  have "lightbox_agrees (renderFavoritesSidebar imgs s') = lightbox_agrees s'" for s'
    by (simp add: lightbox_agrees_def split: option.split)
  then show ?thesis
    by (simp add: toggleFavorite_def Let_def lightbox_agrees_updateLightboxFavoriteIcon)
qed

lemma sidebar_agrees_renderFavoritesSidebar: "sidebar_agrees imgs (renderFavoritesSidebar imgs s)"
  by (simp add: sidebar_agrees_def renderFavoritesSidebar_def updateFavoriteCount_def Let_def)

lemma sidebar_agrees_toggleFavorite: "sidebar_agrees imgs (toggleFavorite imgs imgId btnNode s)"
  by (simp add: toggleFavorite_def Let_def sidebar_agrees_renderFavoritesSidebar)

lemma grid_agrees_renderGalleryPage:
  assumes "grid_agrees s"
  shows "grid_agrees (renderGalleryPage s)"
proof -
  have "list_all (node_agrees (favorites s))
          (map (\<lambda>(img, idx). createGalleryItem s img (k + idx)) ps)" for k and ps :: "(image \<times> nat) list"
    by (induction ps) (auto simp: createGalleryItem_def node_agrees_def)
  with assms show ?thesis
    by (simp add: grid_agrees_def renderGalleryPage_def Let_def node_agrees_def)
qed

lemma grid_agrees_resetAndRender: "grid_agrees (resetAndRender imgs lc s)"
proof -
  have "grid_agrees (applyFiltersSearchSort imgs lc (s\<lparr>gallery := []\<rparr>))"
    by (simp add: grid_agrees_def)
  then show ?thesis
    unfolding resetAndRender_def by (rule grid_agrees_renderGalleryPage)
qed

text \<open>
  The favourite button of a grid item and the remove button of the sidebar leave all
  three views in agreement with the set.
\<close>

lemma sidebar_remove_agrees:
  "grid_agrees (handle imgs lc (SidebarRemoveClick imgData) s)"
  by (simp add: grid_agrees_resetAndRender)

lemma grid_agrees_ItemFavClick:
  assumes g: "grid_agrees s"
    and k: "k < length (gallery s)" "gallery s ! k = Item it"
    and u: "\<And>j it'. j < length (gallery s) \<Longrightarrow> gallery s ! j = Item it' \<Longrightarrow>
              id' (item_img it') = id' (item_img it) \<Longrightarrow> j = k"
  shows "grid_agrees (handle imgs lc (ItemFavClick k) s)"
proof -
  let ?i = "id' (item_img it)"
  let ?s' = "toggleFavorite imgs ?i (Some k) s"
  have h: "handle imgs lc (ItemFavClick k) s = ?s'"
    using k by (simp add: on_item_def)
  have len: "length (gallery ?s') = length (gallery s)"
    by (simp add: gallery_toggleFavorite set_heart_def)
  have "node_agrees (favorites ?s') (gallery ?s' ! j)" if j: "j < length (gallery s)" for j
  proof (cases "j = k")
    case True
    with k show ?thesis
      by (auto simp: gallery_toggleFavorite set_heart_def node_agrees_def favorites_toggleFavorite)
  next
    case False
    from g j have a: "node_agrees (favorites s) (gallery s ! j)"
      by (simp add: grid_agrees_def list_all_length)
    from False j have e: "gallery ?s' ! j = gallery s ! j"
      by (simp add: gallery_toggleFavorite set_heart_def)
    show ?thesis
    proof (cases "gallery s ! j")
      case NoImagesFound
      then show ?thesis by (simp add: e node_agrees_def)
    next
      case (Item it')
      with u [OF j Item] False have "id' (item_img it') \<noteq> ?i" by auto
      with a Item show ?thesis
        by (auto simp: e node_agrees_def favorites_toggleFavorite)
    qed
  qed
  then show ?thesis
    unfolding h by (simp add: grid_agrees_def list_all_length len)
qed

lemma nth_gallery_first_page:
  assumes "filteredList s \<noteq> []" and "gallery s = []" and "k < length (pageItems s)"
  shows "gallery (renderGalleryPage s) ! k =
           createGalleryItem s (pageItems s ! k) (currentPage s * PAGE_SIZE + k)"
  using assms by (simp add: renderGalleryPage_def Let_def)

lemma currentIndex_openLightboxByIndex:
  "0 \<le> i \<Longrightarrow> i < int (length (filteredList s)) \<Longrightarrow> currentIndex (openLightboxByIndex i s) = i"
  by (simp add: openLightboxByIndex_def openLightbox_def)

lemma sidebar_agrees_updateLightboxFavoriteIcon:
  "sidebar_agrees imgs (updateLightboxFavoriteIcon s) = sidebar_agrees imgs s"
  by (simp add: sidebar_agrees_def)

text \<open>
  Claim C5 holds for the grid button and for the sidebar, but not for the lightbox: its
  button calls \<open>toggleFavorite\<close> without a grid button and does not render the grid
  again, so the grid item keeps its old heart. On the started page with no favourites, a
  click on the first grid item opens the lightbox, and a click on the lightbox's
  favourite button makes record 1 a favourite: the lightbox and the sidebar show it,
  while the first grid item, in agreement with the set until then, still shows the
  outline heart.
\<close>

theorem lightbox_toggle_leaves_grid_stale:
  "favorites (handle IMAGES codeUnitCompare FavoriteBtnClick
      (handle IMAGES codeUnitCompare (ItemClick 0)
         (start_page IMAGES codeUnitCompare (initial_state IMAGES [] Map.empty [] [])))) = [''1''] \<and>
   gallery (handle IMAGES codeUnitCompare FavoriteBtnClick
      (handle IMAGES codeUnitCompare (ItemClick 0)
         (start_page IMAGES codeUnitCompare (initial_state IMAGES [] Map.empty [] [])))) ! 0 =
     Item \<lparr>item_img = IMAGES ! 0, item_index = 0, item_solid = False\<rparr> \<and>
   id' (IMAGES ! 0) = ''1'' \<and>
   grid_agrees (handle IMAGES codeUnitCompare (ItemClick 0)
      (start_page IMAGES codeUnitCompare (initial_state IMAGES [] Map.empty [] []))) \<and>
   \<not> grid_agrees (handle IMAGES codeUnitCompare FavoriteBtnClick
      (handle IMAGES codeUnitCompare (ItemClick 0)
         (start_page IMAGES codeUnitCompare (initial_state IMAGES [] Map.empty [] [])))) \<and>
   lightbox_agrees (handle IMAGES codeUnitCompare FavoriteBtnClick
      (handle IMAGES codeUnitCompare (ItemClick 0)
         (start_page IMAGES codeUnitCompare (initial_state IMAGES [] Map.empty [] [])))) \<and>
   sidebar_agrees IMAGES (handle IMAGES codeUnitCompare FavoriteBtnClick
      (handle IMAGES codeUnitCompare (ItemClick 0)
         (start_page IMAGES codeUnitCompare (initial_state IMAGES [] Map.empty [] []))))"
proof -
  let ?a = "applyFiltersSearchSort IMAGES codeUnitCompare (initial_state IMAGES [] Map.empty [] [])"
  define s0 where "s0 = start_page IMAGES codeUnitCompare (initial_state IMAGES [] Map.empty [] [])"
  define s1 where "s1 = handle IMAGES codeUnitCompare (ItemClick 0) s0"
  define s2 where "s2 = handle IMAGES codeUnitCompare FavoriteBtnClick s1"
  let ?it = "\<lparr>item_img = IMAGES ! 0, item_index = 0, item_solid = False\<rparr>"
  have fl: "filteredList ?a = IMAGES"
    by (rule filteredList_unfiltered) simp_all
  have id1: "id' (IMAGES ! 0) = ''1''"
    by (simp add: IMAGES_def mk_def)
  have p0: "0 < length (pageItems ?a)"
    by (simp add: length_pageItems fl length_IMAGES PAGE_SIZE_def)
  have p1: "pageItems ?a ! 0 = IMAGES ! 0"
    by (simp add: pageItems_def slice_def fl PAGE_SIZE_def)
  have "gallery (renderGalleryPage ?a) ! 0 = createGalleryItem ?a (pageItems ?a ! 0) 0"
    using nth_gallery_first_page [of ?a 0] p0 by (simp add: fl IMAGES_not_Nil)
  then have g0: "gallery s0 ! 0 = Item ?it"
    by (simp add: s0_def start_page_def init_def p1 createGalleryItem_def)
  have "length (gallery (renderGalleryPage ?a)) = length (pageItems ?a)"
    by (simp add: renderGalleryPage_def Let_def fl IMAGES_not_Nil)
  with p0 have l0: "0 < length (gallery s0)"
    by (simp add: s0_def start_page_def init_def)
  have s1: "s1 = openLightboxByIndex 0 s0"
    using g0 l0 by (simp add: s1_def on_item_def)
  have fl0: "filteredList s0 = IMAGES" and f0: "favorites s0 = []"
    by (simp_all add: s0_def start_page_def init_def fl)
  have c1: "currentIndex s1 = 0" and fl1: "filteredList s1 = IMAGES"
    and g1: "gallery s1 = gallery s0" and f1: "favorites s1 = []"
    unfolding s1
    by (simp_all add: currentIndex_openLightboxByIndex fl0 f0 length_IMAGES)
  have s2: "s2 = updateLightboxFavoriteIcon (toggleFavorite IMAGES ''1'' None s1)"
    by (simp add: s2_def toggleFavoriteCurrent_def at_index_def c1 fl1 length_IMAGES id1)
  have f2: "favorites s2 = [''1'']"
    unfolding s2 by (simp add: favorites_toggleFavorite f1)
  have g2: "gallery s2 = gallery s0"
    unfolding s2 by (simp add: gallery_toggleFavorite set_heart_def g1)
  have n: "\<not> node_agrees (favorites s2) (gallery s2 ! 0)"
    by (simp add: f2 g2 g0 node_agrees_def id1)
  have ng: "\<not> grid_agrees s2"
  proof
    assume "grid_agrees s2"
    then have "node_agrees (favorites s2) (gallery s2 ! 0)"
      using l0 by (simp add: grid_agrees_def list_all_length g2)
    with n show False ..
  qed
  have lb: "lightbox_agrees s2"
    unfolding s2 by (rule lightbox_agrees_updateLightboxFavoriteIcon)
  have sb: "sidebar_agrees IMAGES s2"
    unfolding s2
    by (simp only: sidebar_agrees_updateLightboxFavoriteIcon sidebar_agrees_toggleFavorite)
  have "grid_agrees ?a"
    by (simp add: grid_agrees_def)
  then have "grid_agrees (renderGalleryPage ?a)"
    by (rule grid_agrees_renderGalleryPage)
  then have ga: "grid_agrees s1"
    by (simp add: grid_agrees_def s1 s0_def start_page_def init_def)
  have "favorites s2 = [''1''] \<and> gallery s2 ! 0 = Item ?it \<and> id' (IMAGES ! 0) = ''1'' \<and>
        grid_agrees s1 \<and>
        \<not> grid_agrees s2 \<and> lightbox_agrees s2 \<and> sidebar_agrees IMAGES s2"
    using f2 g2 g0 id1 ga ng lb sb by simp
  then show ?thesis
    unfolding s2_def s1_def s0_def .
qed

section \<open>The slideshow timer\<close>

lemma timers_unchanged [simp]:
  "timers (updateLightboxFavoriteIcon s) = timers s"
  "timers (updateLightbox s) = timers s"
  "timers (openLightbox s) = timers s"
  "timers (openLightboxByIndex i s) = timers s"
  "timers (showPrev s) = timers s"
  "timers (showNext s) = timers s"
  "timers (applyFiltersSearchSort imgs lc s) = timers s"
  "timers (renderGalleryPage s) = timers s"
  "timers (resetAndRender imgs lc s) = timers s"
  "timers (persistFavorites s) = timers s"
  "timers (renderFavoritesSidebar imgs s) = timers s"
  "timers (toggleFavorite imgs imgId btnNode s) = timers s"
  "timers (toggleFavoriteCurrent imgs s) = timers s"
  by (simp_all add: updateLightboxFavoriteIcon_def updateLightbox_def openLightbox_def
        openLightboxByIndex_def showPrev_def showNext_def applyFiltersSearchSort_def
        renderGalleryPage_def resetAndRender_def persistFavorites_def renderFavoritesSidebar_def
        updateFavoriteCount_def toggleFavorite_def toggleFavoriteCurrent_def Let_def
        split: option.split)

lemma slideshowInterval_unchanged [simp]:
  "slideshowInterval (updateLightboxFavoriteIcon s) = slideshowInterval s"
  "slideshowInterval (updateLightbox s) = slideshowInterval s"
  "slideshowInterval (openLightbox s) = slideshowInterval s"
  "slideshowInterval (openLightboxByIndex i s) = slideshowInterval s"
  "slideshowInterval (showPrev s) = slideshowInterval s"
  "slideshowInterval (showNext s) = slideshowInterval s"
  "slideshowInterval (applyFiltersSearchSort imgs lc s) = slideshowInterval s"
  "slideshowInterval (renderGalleryPage s) = slideshowInterval s"
  "slideshowInterval (resetAndRender imgs lc s) = slideshowInterval s"
  "slideshowInterval (persistFavorites s) = slideshowInterval s"
  "slideshowInterval (renderFavoritesSidebar imgs s) = slideshowInterval s"
  "slideshowInterval (toggleFavorite imgs imgId btnNode s) = slideshowInterval s"
  "slideshowInterval (toggleFavoriteCurrent imgs s) = slideshowInterval s"
  by (simp_all add: updateLightboxFavoriteIcon_def updateLightbox_def openLightbox_def
        openLightboxByIndex_def showPrev_def showNext_def applyFiltersSearchSort_def
        renderGalleryPage_def resetAndRender_def persistFavorites_def renderFavoritesSidebar_def
        updateFavoriteCount_def toggleFavorite_def toggleFavoriteCurrent_def Let_def
        split: option.split)

lemma timer_inv_same:
  "timer_inv s \<Longrightarrow> timers s' = timers s \<Longrightarrow> slideshowInterval s' = slideshowInterval s \<Longrightarrow>
   timer_inv s'"
  by (simp add: timer_inv_def)

lemma stopSlideshow_clears:
  assumes "timer_inv s"
  shows "timers (stopSlideshow s) = {}" and "slideshowInterval (stopSlideshow s) = None"
proof -
  show "timers (stopSlideshow s) = {}"
  proof (cases "slideshowInterval s")
    case None
    with assms show ?thesis by (simp add: timer_inv_def stopSlideshow_def truthy_def)
  next
    case (Some n)
    with assms have "timers s = {n}" and "n \<noteq> 0" by (simp_all add: timer_inv_def)
    with Some show ?thesis by (simp add: stopSlideshow_def truthy_def clearInterval_def)
  qed
  show "slideshowInterval (stopSlideshow s) = None"
  proof (cases "slideshowInterval s")
    case None
    then show ?thesis by (simp add: stopSlideshow_def truthy_def)
  next
    case (Some n)
    with assms have "n \<noteq> 0" by (simp add: timer_inv_def)
    with Some show ?thesis by (simp add: stopSlideshow_def truthy_def clearInterval_def)
  qed
qed

lemma lightboxActive_stopSlideshow [simp]: "lightboxActive (stopSlideshow s) = lightboxActive s"
  by (simp add: stopSlideshow_def clearInterval_def split: option.split)

lemma timer_inv_stopSlideshow:
  assumes "timer_inv s"
  shows "timer_inv (stopSlideshow s)"
  unfolding timer_inv_def [of "stopSlideshow s"]
  by (simp add: stopSlideshow_clears [OF assms])

lemma timer_inv_startSlideshow:
  assumes "timer_inv s" and "\<not> truthy (slideshowInterval s)"
  shows "timer_inv (startSlideshow s)"
proof -
  from assms have "slideshowInterval s = None"
    by (cases "slideshowInterval s") (simp_all add: truthy_def timer_inv_def)
  with assms(1) have "timers s = {}" by (simp add: timer_inv_def)
  then show ?thesis by (simp add: timer_inv_def startSlideshow_def Let_def)
qed

lemma timer_inv_toggleSlideshow:
  assumes "timer_inv s"
  shows "timer_inv (toggleSlideshow s)"
proof (cases "truthy (slideshowInterval s)")
  case True
  with timer_inv_stopSlideshow [OF assms] show ?thesis by (simp add: toggleSlideshow_def)
next
  case False
  with timer_inv_startSlideshow [OF assms] show ?thesis by (simp add: toggleSlideshow_def)
qed

lemma closeLightbox_clears:
  assumes "timer_inv s"
  shows "timers (closeLightbox s) = {}" and "slideshowInterval (closeLightbox s) = None"
    and "\<not> lightboxActive (closeLightbox s)"
proof -
  from assms have "timer_inv (s\<lparr>lightboxActive := False\<rparr>)"
    by (simp add: timer_inv_def)
  then show "timers (closeLightbox s) = {}" and "slideshowInterval (closeLightbox s) = None"
    unfolding closeLightbox_def by (rule stopSlideshow_clears)+
  show "\<not> lightboxActive (closeLightbox s)"
    by (simp add: closeLightbox_def)
qed

lemma timer_inv_closeLightbox:
  assumes "timer_inv s"
  shows "timer_inv (closeLightbox s)"
  unfolding timer_inv_def [of "closeLightbox s"]
  by (simp add: closeLightbox_clears [OF assms])

lemma timer_inv_tick:
  assumes "timer_inv s"
  shows "timer_inv (tick t s)"
proof (cases "t \<in> timers s")
  case True
  have "timer_inv (showNext s)" by (rule timer_inv_same [OF assms]) simp_all
  with True show ?thesis by (simp add: tick_def)
next
  case False
  with assms show ?thesis by (simp add: tick_def)
qed

lemma timer_inv_onKeyDown:
  assumes "timer_inv s"
  shows "timer_inv (onKeyDown key isInput s)"
proof (cases "lightboxActive s")
  case False
  with assms show ?thesis by (simp add: onKeyDown_def)
next
  case True
  define s1 where "s1 = (if key = ''ArrowRight'' then showNext s else s)"
  define s2 where "s2 = (if key = ''ArrowLeft'' then showPrev s1 else s1)"
  define s3 where "s3 = (if key = ''Escape'' then closeLightbox s2 else s2)"
  have 1: "timer_inv s1"
    by (rule timer_inv_same [OF assms]) (simp_all add: s1_def)
  have 2: "timer_inv s2"
    by (rule timer_inv_same [OF 1]) (simp_all add: s2_def)
  have 3: "timer_inv s3"
    using 2 by (simp add: s3_def timer_inv_closeLightbox)
  have "onKeyDown key isInput s = (if key = '' '' \<and> \<not> isInput then toggleSlideshow s3 else s3)"
    using True by (simp add: onKeyDown_def s1_def s2_def s3_def Let_def)
  with 3 show ?thesis by (simp add: timer_inv_toggleSlideshow)
qed

lemma on_item_unchanged:
  assumes "\<And>it s'. timers (f it s') = timers s'"
    and "\<And>it s'. slideshowInterval (f it s') = slideshowInterval s'"
  shows "timers (on_item k f s) = timers s"
    and "slideshowInterval (on_item k f s) = slideshowInterval s"
  using assms by (simp_all add: on_item_def split: gallery_node.split)

lemma timer_inv_handle:
  assumes i: "timer_inv s"
  shows "timer_inv (handle imgs lc e s)"
proof (cases e)
  case (FilterClick f)
  show ?thesis unfolding FilterClick handle.simps
    by (rule timer_inv_same [OF i]) simp_all
next
  case (SearchInput v)
  show ?thesis unfolding SearchInput handle.simps
    by (rule timer_inv_same [OF i]) simp_all
next
  case SearchDebounce
  show ?thesis unfolding SearchDebounce handle.simps
    by (rule timer_inv_same [OF i]) simp_all
next
  case (SortChange v)
  show ?thesis unfolding SortChange handle.simps
    by (rule timer_inv_same [OF i]) simp_all
next
  case LoadMoreClick
  show ?thesis unfolding LoadMoreClick handle.simps
    by (rule timer_inv_same [OF i]) simp_all
next
  case CloseClick
  show ?thesis unfolding CloseClick handle.simps
    by (rule timer_inv_closeLightbox [OF i])
next
  case PrevClick
  show ?thesis unfolding PrevClick handle.simps
    by (rule timer_inv_same [OF i]) simp_all
next
  case NextClick
  show ?thesis unfolding NextClick handle.simps
    by (rule timer_inv_same [OF i]) simp_all
next
  case OverlayClick
  show ?thesis unfolding OverlayClick handle.simps
    by (rule timer_inv_closeLightbox [OF i])
next
  case FavoriteBtnClick
  show ?thesis unfolding FavoriteBtnClick handle.simps
    by (rule timer_inv_same [OF i]) simp_all
next
  case SlideshowBtnClick
  show ?thesis unfolding SlideshowBtnClick handle.simps
    by (rule timer_inv_toggleSlideshow [OF i])
next
  case (KeyDown key isInput)
  show ?thesis unfolding KeyDown handle.simps
    by (rule timer_inv_onKeyDown [OF i])
next
  case (ItemClick k)
  show ?thesis unfolding ItemClick handle.simps
    by (rule timer_inv_same [OF i]) (simp_all add: on_item_unchanged)
next
  case (ItemOpenClick k)
  show ?thesis unfolding ItemOpenClick handle.simps
    by (rule timer_inv_same [OF i]) (simp_all add: on_item_unchanged)
next
  case (ItemFavClick k)
  show ?thesis unfolding ItemFavClick handle.simps
    by (rule timer_inv_same [OF i]) (simp_all add: on_item_unchanged)
next
  case (ItemKeyDown k key)
  have "timer_inv (on_item k (\<lambda>it s'. if key = ''Enter'' \<or> key = '' ''
           then openLightboxByIndex (int (item_index it)) s' else s') s)"
    by (rule timer_inv_same [OF i]) (simp_all add: on_item_unchanged)
  then show ?thesis
    unfolding ItemKeyDown handle.simps by (rule timer_inv_onKeyDown)
next
  case SentinelIntersect
  show ?thesis unfolding SentinelIntersect handle.simps
    by (rule timer_inv_same [OF i]) simp_all
next
  case (Tick t)
  show ?thesis unfolding Tick handle.simps
    by (rule timer_inv_tick [OF i])
next
  case (SidebarImgClick imgData)
  show ?thesis unfolding SidebarImgClick handle.simps
    by (rule timer_inv_same [OF i]) (simp_all add: Let_def)
next
  case (SidebarRemoveClick imgData)
  show ?thesis unfolding SidebarRemoveClick handle.simps
    by (rule timer_inv_same [OF i]) simp_all
next
  case BeforeUnload
  show ?thesis unfolding BeforeUnload handle.simps
    by (rule timer_inv_same [OF i]) simp_all
qed

lemma timer_inv_start:
  "timer_inv (start_page imgs lc (initial_state imgs favs store search sortBy))"
  by (simp add: timer_inv_def start_page_def init_def)

lemma reachable_timer_inv: "reachable imgs lc s \<Longrightarrow> timer_inv s"
  by (induction rule: reachable.induct) (simp_all add: timer_inv_start timer_inv_handle)

lemma tick_no_timers: "timers s = {} \<Longrightarrow> tick t s = s"
  by (simp add: tick_def)

lemma ticks_no_timers: "timers s = {} \<Longrightarrow> fold tick ts s = s"
  by (induction ts) (simp_all add: tick_no_timers)

lemma exit_is_closeLightbox:
  assumes "e = CloseClick \<or> e = OverlayClick \<or> (e = KeyDown ''Escape'' isInput \<and> lightboxActive s)"
  shows "handle imgs lc e s = closeLightbox s"
  using assms by (auto simp: onKeyDown_def)

text \<open>
  Claim C7. In every state the page can reach, each way out of the lightbox (the close
  button, a click on the overlay, the Escape key while the lightbox is open) runs
  \<open>closeLightbox\<close>: afterwards the lightbox is closed, \<open>slideshowInterval\<close> is \<open>null\<close>, no
  interval timer is left, and so whatever timers fire later, in any number, the state
  and with it the selection stays as it is.
\<close>

theorem close_stops_slideshow:
  assumes "reachable imgs lc s"
    and "e = CloseClick \<or> e = OverlayClick \<or> (e = KeyDown ''Escape'' isInput \<and> lightboxActive s)"
  shows "handle imgs lc e s = closeLightbox s \<and>
         \<not> lightboxActive (handle imgs lc e s) \<and>
         slideshowInterval (handle imgs lc e s) = None \<and>
         timers (handle imgs lc e s) = {} \<and>
         fold (\<lambda>t. handle imgs lc (Tick t)) ts (handle imgs lc e s) = handle imgs lc e s"
proof -
  from assms(1) have i: "timer_inv s" by (rule reachable_timer_inv)
  have h: "handle imgs lc e s = closeLightbox s"
    using assms(2) by (rule exit_is_closeLightbox)
  have f: "(\<lambda>t. handle imgs lc (Tick t)) = tick"
    by (intro ext) simp
  from closeLightbox_clears [OF i] ticks_no_timers [of "closeLightbox s" ts]
  show ?thesis
    unfolding h f by simp
qed

theorem close_stops_slideshow_witness:
  "slideshowInterval (handle IMAGES codeUnitCompare SlideshowBtnClick
      (start_page IMAGES codeUnitCompare (initial_state IMAGES [] Map.empty [] []))) = Some 1 \<and>
   timers (handle IMAGES codeUnitCompare SlideshowBtnClick
      (start_page IMAGES codeUnitCompare (initial_state IMAGES [] Map.empty [] []))) = {1} \<and>
   slideshowInterval (handle IMAGES codeUnitCompare CloseClick
      (handle IMAGES codeUnitCompare SlideshowBtnClick
         (start_page IMAGES codeUnitCompare (initial_state IMAGES [] Map.empty [] [])))) = None \<and>
   timers (handle IMAGES codeUnitCompare CloseClick
      (handle IMAGES codeUnitCompare SlideshowBtnClick
         (start_page IMAGES codeUnitCompare (initial_state IMAGES [] Map.empty [] [])))) = {} \<and>
   fold (\<lambda>t. handle IMAGES codeUnitCompare (Tick t)) [1, 1, 1]
     (handle IMAGES codeUnitCompare CloseClick
        (handle IMAGES codeUnitCompare SlideshowBtnClick
           (start_page IMAGES codeUnitCompare (initial_state IMAGES [] Map.empty [] [])))) =
     handle IMAGES codeUnitCompare CloseClick
        (handle IMAGES codeUnitCompare SlideshowBtnClick
           (start_page IMAGES codeUnitCompare (initial_state IMAGES [] Map.empty [] [])))"
proof -
  define s0 where "s0 = start_page IMAGES codeUnitCompare (initial_state IMAGES [] Map.empty [] [])"
  define s1 where "s1 = handle IMAGES codeUnitCompare SlideshowBtnClick s0"
  have r0: "reachable IMAGES codeUnitCompare s0"
    unfolding s0_def by (rule reachable.start)
  then have r1: "reachable IMAGES codeUnitCompare s1"
    unfolding s1_def by (rule reachable.step)
  have n0: "nextTimer s0 = 0" "slideshowInterval s0 = None" "timers s0 = {}"
    by (simp_all add: s0_def start_page_def init_def)
       (simp add: renderFavoritesSidebar_def updateFavoriteCount_def renderGalleryPage_def
          applyFiltersSearchSort_def Let_def initial_state_def)
  have a: "slideshowInterval s1 = Some 1" "timers s1 = {1}"
    by (simp_all add: s1_def toggleSlideshow_def startSlideshow_def truthy_def n0 Let_def)
  note close_stops_slideshow [OF r1, of CloseClick False "[1, 1, 1]"]
  with a show ?thesis
    unfolding s1_def s0_def by simp
qed

text \<open>
  With the lightbox's controls operable only while it is open, the slideshow never runs
  while the lightbox is closed: in every state of the page either no interval timer is
  active or the lightbox is open.
\<close>

lemma lightboxActive_unchanged [simp]:
  "lightboxActive (updateLightboxFavoriteIcon s) = lightboxActive s"
  "lightboxActive (updateLightbox s) = lightboxActive s"
  "lightboxActive (showPrev s) = lightboxActive s"
  "lightboxActive (showNext s) = lightboxActive s"
  "lightboxActive (applyFiltersSearchSort imgs lc s) = lightboxActive s"
  "lightboxActive (renderGalleryPage s) = lightboxActive s"
  "lightboxActive (resetAndRender imgs lc s) = lightboxActive s"
  "lightboxActive (persistFavorites s) = lightboxActive s"
  "lightboxActive (renderFavoritesSidebar imgs s) = lightboxActive s"
  "lightboxActive (toggleFavorite imgs imgId btnNode s) = lightboxActive s"
  "lightboxActive (toggleFavoriteCurrent imgs s) = lightboxActive s"
  "lightboxActive (startSlideshow s) = lightboxActive s"
  by (simp_all add: updateLightboxFavoriteIcon_def updateLightbox_def
        showPrev_def showNext_def applyFiltersSearchSort_def
        renderGalleryPage_def resetAndRender_def persistFavorites_def renderFavoritesSidebar_def
        updateFavoriteCount_def toggleFavorite_def toggleFavoriteCurrent_def startSlideshow_def
        Let_def split: option.split)

lemma lightboxActive_toggleSlideshow [simp]:
  "lightboxActive (toggleSlideshow s) = lightboxActive s"
  by (simp add: toggleSlideshow_def)

lemma lightboxActive_openLightboxByIndex:
  "lightboxActive s \<Longrightarrow> lightboxActive (openLightboxByIndex i s)"
  by (simp add: openLightboxByIndex_def openLightbox_def)

lemma open_or_idle_same:
  "open_or_idle s \<Longrightarrow> timers s' = timers s \<Longrightarrow> (lightboxActive s \<Longrightarrow> lightboxActive s') \<Longrightarrow>
   open_or_idle s'"
  by (auto simp: open_or_idle_def)

lemma open_or_idle_toggleSlideshow:
  assumes "timer_inv s" and "lightboxActive s"
  shows "open_or_idle (toggleSlideshow s)"
  using assms by (simp add: open_or_idle_def)

lemma open_or_idle_closeLightbox: "timer_inv s \<Longrightarrow> open_or_idle (closeLightbox s)"
  by (simp add: open_or_idle_def closeLightbox_clears)

lemma open_or_idle_onKeyDown:
  assumes i: "timer_inv s" and o: "open_or_idle s"
  shows "open_or_idle (onKeyDown key isInput s)"
proof (cases "lightboxActive s")
  case False
  with o show ?thesis by (simp add: onKeyDown_def)
next
  case True
  define s1 where "s1 = (if key = ''ArrowRight'' then showNext s else s)"
  define s2 where "s2 = (if key = ''ArrowLeft'' then showPrev s1 else s1)"
  define s3 where "s3 = (if key = ''Escape'' then closeLightbox s2 else s2)"
  have e: "onKeyDown key isInput s = (if key = '' '' \<and> \<not> isInput then toggleSlideshow s3 else s3)"
    using True by (simp add: onKeyDown_def s1_def s2_def s3_def Let_def)
  have i2: "timer_inv s2"
    by (rule timer_inv_same [OF i]) (simp_all add: s2_def s1_def)
  have a2: "lightboxActive s2"
    using True by (simp add: s2_def s1_def)
  show ?thesis
  proof (cases "key = ''Escape''")
    case True
    have "open_or_idle (closeLightbox s2)"
      using i2 by (rule open_or_idle_closeLightbox)
    then show ?thesis
      unfolding e s3_def using True by simp
  next
    case False
    then have s3: "s3 = s2" by (simp add: s3_def)
    show ?thesis
      unfolding e s3 using i2 a2
      by (simp add: open_or_idle_toggleSlideshow) (simp add: open_or_idle_def)
  qed
qed

lemma on_item_active:
  assumes "\<And>it s'. lightboxActive s' \<Longrightarrow> lightboxActive (f it s')"
  shows "lightboxActive s \<Longrightarrow> lightboxActive (on_item k f s)"
  using assms by (simp add: on_item_def split: gallery_node.split)

lemma open_or_idle_handle:
  assumes i: "timer_inv s" and o: "open_or_idle s" and a: "available s e"
  shows "open_or_idle (handle imgs lc e s)"
proof (cases e)
  case (FilterClick f)
  show ?thesis unfolding FilterClick handle.simps
    by (rule open_or_idle_same [OF o]) simp_all
next
  case (SearchInput v)
  show ?thesis unfolding SearchInput handle.simps
    by (rule open_or_idle_same [OF o]) simp_all
next
  case SearchDebounce
  show ?thesis unfolding SearchDebounce handle.simps
    by (rule open_or_idle_same [OF o]) simp_all
next
  case (SortChange v)
  show ?thesis unfolding SortChange handle.simps
    by (rule open_or_idle_same [OF o]) simp_all
next
  case LoadMoreClick
  show ?thesis unfolding LoadMoreClick handle.simps
    by (rule open_or_idle_same [OF o]) simp_all
next
  case CloseClick
  show ?thesis unfolding CloseClick handle.simps
    by (rule open_or_idle_closeLightbox [OF i])
next
  case PrevClick
  show ?thesis unfolding PrevClick handle.simps
    by (rule open_or_idle_same [OF o]) simp_all
next
  case NextClick
  show ?thesis unfolding NextClick handle.simps
    by (rule open_or_idle_same [OF o]) simp_all
next
  case OverlayClick
  show ?thesis unfolding OverlayClick handle.simps
    by (rule open_or_idle_closeLightbox [OF i])
next
  case FavoriteBtnClick
  show ?thesis unfolding FavoriteBtnClick handle.simps
    by (rule open_or_idle_same [OF o]) simp_all
next
  case SlideshowBtnClick
  with a have "lightboxActive s" by (simp add: available_def)
  with i show ?thesis unfolding SlideshowBtnClick handle.simps
    by (rule open_or_idle_toggleSlideshow)
next
  case (KeyDown key isInput)
  show ?thesis unfolding KeyDown handle.simps
    by (rule open_or_idle_onKeyDown [OF i o])
next
  case (ItemClick k)
  show ?thesis unfolding ItemClick handle.simps
    by (rule open_or_idle_same [OF o])
       (simp_all add: on_item_unchanged on_item_active lightboxActive_openLightboxByIndex)
next
  case (ItemOpenClick k)
  show ?thesis unfolding ItemOpenClick handle.simps
    by (rule open_or_idle_same [OF o])
       (simp_all add: on_item_unchanged on_item_active lightboxActive_openLightboxByIndex)
next
  case (ItemFavClick k)
  show ?thesis unfolding ItemFavClick handle.simps
    by (rule open_or_idle_same [OF o]) (simp_all add: on_item_unchanged on_item_active)
next
  case (ItemKeyDown k key)
  let ?s' = "on_item k (\<lambda>it s'. if key = ''Enter'' \<or> key = '' ''
           then openLightboxByIndex (int (item_index it)) s' else s') s"
  have i': "timer_inv ?s'"
    by (rule timer_inv_same [OF i]) (simp_all add: on_item_unchanged)
  have o': "open_or_idle ?s'"
    by (rule open_or_idle_same [OF o])
       (simp_all add: on_item_unchanged on_item_active lightboxActive_openLightboxByIndex)
  show ?thesis
    unfolding ItemKeyDown handle.simps by (rule open_or_idle_onKeyDown [OF i' o'])
next
  case SentinelIntersect
  show ?thesis unfolding SentinelIntersect handle.simps
    by (rule open_or_idle_same [OF o]) simp_all
next
  case (Tick t)
  show ?thesis unfolding Tick handle.simps
    by (rule open_or_idle_same [OF o]) (simp_all add: tick_def)
next
  case (SidebarImgClick imgData)
  show ?thesis unfolding SidebarImgClick handle.simps
    by (rule open_or_idle_same [OF o]) (simp_all add: Let_def lightboxActive_openLightboxByIndex)
next
  case (SidebarRemoveClick imgData)
  show ?thesis unfolding SidebarRemoveClick handle.simps
    by (rule open_or_idle_same [OF o]) simp_all
next
  case BeforeUnload
  show ?thesis unfolding BeforeUnload handle.simps
    by (rule open_or_idle_same [OF o]) simp_all
qed

lemma reachable_modal_reachable: "reachable_modal imgs lc s \<Longrightarrow> reachable imgs lc s"
  by (induction rule: reachable_modal.induct) (simp_all add: reachable.start reachable.step)

lemma never_runs_while_closed:
  assumes "reachable_modal imgs lc s"
  shows "timers s = {} \<or> lightboxActive s"
proof -
  from assms have "open_or_idle s"
  proof (induction rule: reachable_modal.induct)
    case (start_modal favs store search sortBy)
    show ?case by (simp add: open_or_idle_def start_page_def init_def)
  next
    case (step_modal s e)
    from step_modal.hyps(1) have "timer_inv s"
      by (intro reachable_timer_inv reachable_modal_reachable)
    then show ?case using step_modal.IH step_modal.hyps(2) by (rule open_or_idle_handle)
  qed
  then show ?thesis by (simp add: open_or_idle_def)
qed

section \<open>Invariants of the page\<close>

lemma page_unchanged [simp]:
  "currentPage (updateLightboxFavoriteIcon s) = currentPage s"
  "currentPage (updateLightbox s) = currentPage s"
  "currentPage (openLightbox s) = currentPage s"
  "currentPage (openLightboxByIndex i s) = currentPage s"
  "currentPage (showPrev s) = currentPage s"
  "currentPage (showNext s) = currentPage s"
  "currentPage (persistFavorites s) = currentPage s"
  "currentPage (renderFavoritesSidebar imgs s) = currentPage s"
  "currentPage (toggleFavorite imgs imgId btnNode s) = currentPage s"
  "currentPage (toggleFavoriteCurrent imgs s) = currentPage s"
  "currentPage (stopSlideshow s) = currentPage s"
  "currentPage (startSlideshow s) = currentPage s"
  "currentPage (closeLightbox s) = currentPage s"
  by (simp_all add: updateLightboxFavoriteIcon_def updateLightbox_def openLightbox_def
        openLightboxByIndex_def showPrev_def showNext_def persistFavorites_def
        renderFavoritesSidebar_def updateFavoriteCount_def toggleFavorite_def
        toggleFavoriteCurrent_def stopSlideshow_def startSlideshow_def closeLightbox_def
        clearInterval_def Let_def split: option.split)

lemma list_unchanged [simp]:
  "filteredList (showPrev s) = filteredList s"
  "filteredList (showNext s) = filteredList s"
  "filteredList (toggleFavoriteCurrent imgs s) = filteredList s"
  "filteredList (stopSlideshow s) = filteredList s"
  "filteredList (startSlideshow s) = filteredList s"
  "filteredList (closeLightbox s) = filteredList s"
  by (simp_all add: showPrev_def showNext_def toggleFavoriteCurrent_def stopSlideshow_def
        startSlideshow_def closeLightbox_def clearInterval_def Let_def split: option.split)

lemma grid_unchanged [simp]:
  "gallery (showPrev s) = gallery s"
  "gallery (showNext s) = gallery s"
  "gallery (stopSlideshow s) = gallery s"
  "gallery (startSlideshow s) = gallery s"
  "gallery (closeLightbox s) = gallery s"
  by (simp_all add: showPrev_def showNext_def stopSlideshow_def startSlideshow_def
        closeLightbox_def clearInterval_def Let_def split: option.split)

lemma length_filter_update:
  "(k < length g \<Longrightarrow> P v = P (g ! k)) \<Longrightarrow> length (filter P (g[k := v])) = length (filter P g)"
proof (induction g arbitrary: k)
  case Nil
  show ?case by simp
next
  case (Cons x g)
  show ?case
  proof (cases k)
    case 0
    with Cons.prems show ?thesis by simp
  next
    case (Suc j)
    with Cons.prems have "length (filter P (g[j := v])) = length (filter P g)"
      by (intro Cons.IH) simp
    with Suc show ?thesis by simp
  qed
qed

lemma rendered_set_heart:
  "length (filter (\<lambda>n. n \<noteq> NoImagesFound) (set_heart btnNode solid g)) =
   length (filter (\<lambda>n. n \<noteq> NoImagesFound) g)"
proof (cases btnNode)
  case None
  then show ?thesis by (simp add: set_heart_def)
next
  case (Some k)
  show ?thesis
  proof (cases "k < length g")
    case False
    with Some show ?thesis by (simp add: set_heart_def)
  next
    case True
    have "length (filter (\<lambda>n. n \<noteq> NoImagesFound)
            (g[k := (case g ! k of Item it \<Rightarrow> Item (it\<lparr>item_solid := solid\<rparr>)
                     | NoImagesFound \<Rightarrow> NoImagesFound)])) =
          length (filter (\<lambda>n. n \<noteq> NoImagesFound) g)"
      by (rule length_filter_update) (simp split: gallery_node.split)
    with True Some show ?thesis by (simp add: set_heart_def)
  qed
qed

lemma rendered_toggleFavorite [simp]:
  "rendered (toggleFavorite imgs imgId btnNode s) = rendered s"
  by (simp add: rendered_def gallery_toggleFavorite rendered_set_heart)

lemma rendered_toggleFavoriteCurrent [simp]:
  "rendered (toggleFavoriteCurrent imgs s) = rendered s"
  by (simp add: toggleFavoriteCurrent_def rendered_cong [of "updateLightboxFavoriteIcon _"]
      split: option.split)

lemma grid_in_step_toggleSlideshow: "grid_in_step s \<Longrightarrow> grid_in_step (toggleSlideshow s)"
  by (simp add: toggleSlideshow_def grid_in_step_def rendered_def)

lemma grid_in_step_onKeyDown:
  assumes "grid_in_step s"
  shows "grid_in_step (onKeyDown key isInput s)"
proof (cases "lightboxActive s")
  case False
  with assms show ?thesis by (simp add: onKeyDown_def)
next
  case True
  define s1 where "s1 = (if key = ''ArrowRight'' then showNext s else s)"
  define s2 where "s2 = (if key = ''ArrowLeft'' then showPrev s1 else s1)"
  define s3 where "s3 = (if key = ''Escape'' then closeLightbox s2 else s2)"
  have "grid_in_step s3"
    by (rule grid_in_step_same [OF assms])
       (simp_all add: s3_def s2_def s1_def rendered_def)
  moreover have "onKeyDown key isInput s =
      (if key = '' '' \<and> \<not> isInput then toggleSlideshow s3 else s3)"
    using True by (simp add: onKeyDown_def s1_def s2_def s3_def Let_def)
  ultimately show ?thesis by (simp add: grid_in_step_toggleSlideshow)
qed

lemma on_item_grid:
  assumes "grid_in_step s"
    and "\<And>it. grid_in_step (f it s)"
  shows "grid_in_step (on_item k f s)"
  using assms by (simp add: on_item_def split: gallery_node.split)

lemma grid_in_step_openLightboxByIndex:
  "grid_in_step s \<Longrightarrow> grid_in_step (openLightboxByIndex i s)"
  by (erule grid_in_step_same) (simp_all add: rendered_def)

lemma grid_in_step_toggleFavorite:
  "grid_in_step s \<Longrightarrow> grid_in_step (toggleFavorite imgs imgId btnNode s)"
  by (erule grid_in_step_same) simp_all

lemma grid_in_step_handle:
  assumes g: "grid_in_step s"
  shows "grid_in_step (handle imgs lc e s)"
proof (cases e)
  case (FilterClick f)
  show ?thesis unfolding FilterClick handle.simps by (rule grid_in_step_resetAndRender)
next
  case (SearchInput v)
  show ?thesis unfolding SearchInput handle.simps
    by (rule grid_in_step_same [OF g]) (simp_all add: rendered_def)
next
  case SearchDebounce
  show ?thesis unfolding SearchDebounce handle.simps by (rule grid_in_step_resetAndRender)
next
  case (SortChange v)
  show ?thesis unfolding SortChange handle.simps by (rule grid_in_step_resetAndRender)
next
  case LoadMoreClick
  show ?thesis unfolding LoadMoreClick handle.simps
    by (rule grid_in_step_renderGalleryPage [OF g])
next
  case CloseClick
  show ?thesis unfolding CloseClick handle.simps
    by (rule grid_in_step_same [OF g]) (simp_all add: rendered_def)
next
  case PrevClick
  show ?thesis unfolding PrevClick handle.simps
    by (rule grid_in_step_same [OF g]) (simp_all add: rendered_def)
next
  case NextClick
  show ?thesis unfolding NextClick handle.simps
    by (rule grid_in_step_same [OF g]) (simp_all add: rendered_def)
next
  case OverlayClick
  show ?thesis unfolding OverlayClick handle.simps
    by (rule grid_in_step_same [OF g]) (simp_all add: rendered_def)
next
  case FavoriteBtnClick
  show ?thesis unfolding FavoriteBtnClick handle.simps
    by (rule grid_in_step_same [OF g]) simp_all
next
  case SlideshowBtnClick
  show ?thesis unfolding SlideshowBtnClick handle.simps
    by (rule grid_in_step_toggleSlideshow [OF g])
next
  case (KeyDown key isInput)
  show ?thesis unfolding KeyDown handle.simps by (rule grid_in_step_onKeyDown [OF g])
next
  case (ItemClick k)
  show ?thesis unfolding ItemClick handle.simps
    by (rule on_item_grid [OF g]) (rule grid_in_step_openLightboxByIndex [OF g])
next
  case (ItemOpenClick k)
  show ?thesis unfolding ItemOpenClick handle.simps
    by (rule on_item_grid [OF g]) (rule grid_in_step_openLightboxByIndex [OF g])
next
  case (ItemFavClick k)
  show ?thesis unfolding ItemFavClick handle.simps
    by (rule on_item_grid [OF g]) (rule grid_in_step_toggleFavorite [OF g])
next
  case (ItemKeyDown k key)
  have "grid_in_step (on_item k (\<lambda>it s'. if key = ''Enter'' \<or> key = '' ''
           then openLightboxByIndex (int (item_index it)) s' else s') s)"
    by (rule on_item_grid [OF g]) (simp add: g grid_in_step_openLightboxByIndex)
  then show ?thesis
    unfolding ItemKeyDown handle.simps by (rule grid_in_step_onKeyDown)
next
  case SentinelIntersect
  show ?thesis unfolding SentinelIntersect handle.simps
    by (simp add: g grid_in_step_renderGalleryPage)
next
  case (Tick t)
  have "grid_in_step (showNext s)"
    by (rule grid_in_step_same [OF g]) (simp_all add: rendered_def)
  with g show ?thesis unfolding Tick handle.simps by (simp add: tick_def)
next
  case (SidebarImgClick imgData)
  show ?thesis unfolding SidebarImgClick handle.simps
    by (simp add: Let_def grid_in_step_openLightboxByIndex [OF g])
next
  case (SidebarRemoveClick imgData)
  show ?thesis unfolding SidebarRemoveClick handle.simps by (rule grid_in_step_resetAndRender)
next
  case BeforeUnload
  show ?thesis unfolding BeforeUnload handle.simps
    by (rule grid_in_step_same [OF g]) (simp_all add: rendered_def)
qed

text \<open>In every state of the page the grid holds the pages rendered so far.\<close>

lemma reachable_grid_in_step: "reachable imgs lc s \<Longrightarrow> grid_in_step s"
proof (induction rule: reachable.induct)
  case (start favs store search sortBy)
  have "grid_in_step (init imgs lc (initial_state imgs favs store search sortBy))"
    by (rule grid_in_step_init) simp
  then show ?case
    unfolding start_page_def by (rule grid_in_step_same) (simp_all add: rendered_def)
next
  case (step s e)
  then show ?case by (simp add: grid_in_step_handle)
qed

section \<open>Properties of hydration\<close>

lemma char_eq_code: "(c = d) = ((of_char c :: nat) = of_char d)"
  by (rule of_char_eq_iff [symmetric])

lemma hex_val_hex_digit:
  assumes "d < 16"
  shows "hex_val (hex_digit d) = Some d"
proof (cases "d < 10")
  case True
  then have "(48 + d) mod 256 = 48 + d" by simp
  with True show ?thesis by (simp add: hex_val_def hex_digit_def Let_def)
next
  case False
  with assms have "(87 + d) mod 256 = 87 + d" by simp
  with False assms show ?thesis by (simp add: hex_val_def hex_digit_def Let_def)
qed

lemma lex_string_quote_char:
  "lex_string Plain acc (quote_char c @ rest) = lex_string Plain (of_char c # acc) rest"
proof -
  let ?n = "of_char c :: nat"
  consider "?n = 34" | "?n = 92" | "?n = 8" | "?n = 12" | "?n = 10" | "?n = 13" | "?n = 9"
    | "?n < 32" "?n \<noteq> 8" "?n \<noteq> 12" "?n \<noteq> 10" "?n \<noteq> 13" "?n \<noteq> 9"
    | "32 \<le> ?n" "?n \<noteq> 34" "?n \<noteq> 92"
    by linarith
  then show ?thesis
  proof cases
    case 8
    have h: "hex_val (hex_digit (?n div 16)) = Some (?n div 16)"
            "hex_val (hex_digit (?n mod 16)) = Some (?n mod 16)"
      using 8(1) by (simp_all add: hex_val_hex_digit)
    have z: "hex_val CHR ''0'' = Some 0" by (simp add: hex_val_def)
    from 8 show ?thesis
      by (simp add: quote_char_def Let_def h z)
  next
    case 9
    then have "c \<noteq> CHR 0x22" "c \<noteq> CHR 0x5C"
      by (auto simp: char_eq_code)
    with 9 show ?thesis
      by (simp add: quote_char_def Let_def)
  qed (simp_all add: quote_char_def Let_def escape_val_def)
qed

lemma lex_string_quoted:
  "lex_string Plain acc (concat (map quote_char s) @ CHR 0x22 # rest) =
     Some (rev acc @ map of_char s, rest)"
proof (induction s arbitrary: acc)
  case Nil
  show ?case by simp
next
  case (Cons c s)
  have "lex_string Plain acc (concat (map quote_char (c # s)) @ CHR 0x22 # rest) =
        lex_string Plain (of_char c # acc) (concat (map quote_char s) @ CHR 0x22 # rest)"
    using lex_string_quote_char [of acc c "concat (map quote_char s) @ CHR 0x22 # rest"]
    by simp
  also have "\<dots> = Some (rev (of_char c # acc) @ map of_char s, rest)"
    by (rule Cons.IH)
  finally show ?case by simp
qed

lemma tokenize_QuoteJSONString:
  "tokenize (QuoteJSONString x @ rest) =
     map_option (Cons (TString (map of_char x))) (tokenize rest)"
  using lex_string_quoted [of "[]" x rest]
  by (simp add: QuoteJSONString_def tokenize.simps is_json_ws_def)

lemma tokenize_bracket:
  "tokenize (CHR ''['' # rest) = map_option (Cons LBracket) (tokenize rest)"
  "tokenize (CHR '','' # rest) = map_option (Cons Comma) (tokenize rest)"
  "tokenize '']'' = Some [RBracket]"
  by (simp_all add: tokenize.simps is_json_ws_def)


lemma join_comma_Cons:
  "join_comma (x # ys) = x @ concat (map (\<lambda>y. '','' @ y) ys)"
  by (induction ys arbitrary: x) simp_all

lemma tokenize_rest:
  "tokenize (concat (map (\<lambda>y. CHR '','' # QuoteJSONString y) ys) @ '']'') =
     Some (concat (map (\<lambda>y. [Comma, TString (map of_char y)]) ys) @ [RBracket])"
proof (induction ys)
  case Nil
  show ?case by (simp add: tokenize_bracket)
next
  case (Cons y ys)
  have "tokenize (concat (map (\<lambda>y. CHR '','' # QuoteJSONString y) (y # ys)) @ '']'') =
        tokenize (CHR '','' # (QuoteJSONString y @
          (concat (map (\<lambda>y. CHR '','' # QuoteJSONString y) ys) @ '']'')))"
    by simp
  also have "\<dots> = map_option (Cons Comma) (map_option (Cons (TString (map of_char y)))
      (Some (concat (map (\<lambda>y. [Comma, TString (map of_char y)]) ys) @ [RBracket])))"
    by (simp only: tokenize_bracket(2) tokenize_QuoteJSONString Cons.IH)
  finally show ?case by simp
qed

text \<open>The tokens of a serialised list of strings.\<close>

lemma tokenize_JSON_stringify:
  "tokenize (JSON_stringify xs) =
     Some (LBracket #
           (case xs of
              [] \<Rightarrow> []
            | x # ys \<Rightarrow> TString (map of_char x) #
                        concat (map (\<lambda>y. [Comma, TString (map of_char y)]) ys)) @
           [RBracket])"
proof (cases xs)
  case Nil
  then show ?thesis by (simp add: JSON_stringify_def tokenize_bracket)
next
  case (Cons x ys)
  have "join_comma (map QuoteJSONString xs) =
        QuoteJSONString x @ concat (map (\<lambda>y. CHR '','' # QuoteJSONString y) ys)"
    by (simp add: Cons join_comma_Cons comp_def)
  then have "tokenize (JSON_stringify xs) =
        tokenize (CHR ''['' # (QuoteJSONString x @
          (concat (map (\<lambda>y. CHR '','' # QuoteJSONString y) ys) @ '']'')))"
    by (simp add: JSON_stringify_def)
  also have "\<dots> = map_option (Cons LBracket) (map_option (Cons (TString (map of_char x)))
      (Some (concat (map (\<lambda>y. [Comma, TString (map of_char y)]) ys) @ [RBracket])))"
    by (simp only: tokenize_bracket(1) tokenize_QuoteJSONString tokenize_rest)
  finally show ?thesis by (simp add: Cons)
qed

lemma run_elements:
  "run ExpCommaOrClose [InArray es] (concat (map (\<lambda>y. [Comma, TString y]) ys) @ [RBracket]) =
     Some (JArray (rev es @ map JString ys))"
proof (induction ys arbitrary: es)
  case Nil
  show ?case by (simp add: close_array_def)
next
  case (Cons y ys)
  show ?case
    using Cons.IH [of "JString y # es"] by (simp add: start_value_def)
qed

lemma run_string_array:
  "run ExpValue []
     (LBracket #
      (case xs of [] \<Rightarrow> [] | x # ys \<Rightarrow> TString x # concat (map (\<lambda>y. [Comma, TString y]) ys)) @
      [RBracket]) =
   Some (JArray (map JString xs))"
proof (cases xs)
  case Nil
  then show ?thesis by (simp add: start_value_def close_array_def)
next
  case (Cons x ys)
  then show ?thesis
    using run_elements [of "[JString x]" ys] by (simp add: start_value_def)
qed

lemma JSON_parse_stringify:
  "JSON_parse (JSON_stringify xs) = Inr (JArray (map (\<lambda>x. JString (map of_char x)) xs))"
proof -
  have "(case xs of [] \<Rightarrow> []
         | x # ys \<Rightarrow> TString (map of_char x) #
                     concat (map (\<lambda>y. [Comma, TString (map of_char y)]) ys)) =
        (case map (map of_char) xs of [] \<Rightarrow> []
         | x # ys \<Rightarrow> TString x # concat (map (\<lambda>y. [Comma, TString y]) ys))"
    by (cases xs) (simp_all add: comp_def)
  then show ?thesis
    using run_string_array [of "map (map of_char) xs"]
    by (simp add: JSON_parse_def tokenize_JSON_stringify comp_def)
qed

lemma JSON_stringify_not_Nil: "JSON_stringify xs \<noteq> []"
  by (simp add: JSON_stringify_def)

lemma hydrateFavorites_absent:
  assumes "store ''gallery_favorites'' = None \<or> store ''gallery_favorites'' = Some []"
  shows "hydrateFavorites store = Inr []"
proof -
  have "JSON_parse ''[]'' = Inr (JArray [])"
    using JSON_parse_stringify [of "[]"] by (simp add: JSON_stringify_def)
  with assms show ?thesis
    by (auto simp: hydrateFavorites_def)
qed

lemma hydrateFavorites_stored:
  assumes "store ''gallery_favorites'' = Some v" and "v \<noteq> []"
  shows "hydrateFavorites store = (case JSON_parse v of Inl e \<Rightarrow> Inl e | Inr j \<Rightarrow> new_Set j)"
  using assms by (simp add: hydrateFavorites_def)

lemma hydrateFavorites_persisted:
  assumes "store ''gallery_favorites'' = Some (JSON_stringify favs)"
  shows "hydrateFavorites store = Inr (map (\<lambda>x. JString (map of_char x)) favs)"
  using hydrateFavorites_stored [of store "JSON_stringify favs"] assms
  by (simp add: JSON_parse_stringify JSON_stringify_not_Nil)

text \<open>
  Reloading after a toggle: the set hydrated from the storage that \<open>toggleFavorite\<close>
  leaves behind is the set that \<open>toggleFavorite\<close> has made.
\<close>

lemma reload_after_toggle:
  "hydrateFavorites (localStorage (toggleFavorite imgs imgId btnNode s)) =
     Inr (map (\<lambda>x. JString (map of_char x)) (favorites (toggleFavorite imgs imgId btnNode s)))"
  by (rule hydrateFavorites_persisted) (rule localStorage_toggleFavorite)

text \<open>
  Claim C8 as stated fails: nothing catches what \<open>JSON.parse\<close> throws. With the text
  \<open>not json\<close> under the favourites key the initialiser of \<open>favorites\<close> ends in a
  \<open>SyntaxError\<close> instead of the empty set.
\<close>

theorem hydrate_malformed_counterexample:
  "hydrateFavorites [''gallery_favorites'' \<mapsto> ''not json''] = Inl SyntaxError"
  by (simp add: hydrateFavorites_def JSON_parse_def tokenize.simps is_json_ws_def is_digit_def)

text \<open>
  Claim C8, amended. When the favourites key is absent or holds the empty string,
  hydration yields the empty set; when it holds what \<open>persistFavorites\<close> wrote, hydration
  yields the persisted ids in their order. For any other stored text hydration is
  \<open>new Set(JSON.parse(text))\<close>: it fails with the \<open>SyntaxError\<close> of \<open>JSON.parse\<close> when the
  text is not JSON, and with a \<open>TypeError\<close> when the text is a JSON number, boolean or
  object.
\<close>

theorem hydrateFavorites_outcomes:
  "(store ''gallery_favorites'' = None \<or> store ''gallery_favorites'' = Some [] \<longrightarrow>
      hydrateFavorites store = Inr []) \<and>
   (store ''gallery_favorites'' = Some (JSON_stringify favs) \<longrightarrow>
      hydrateFavorites store = Inr (map (\<lambda>x. JString (map of_char x)) favs)) \<and>
   (store ''gallery_favorites'' = Some v \<and> v \<noteq> [] \<and> JSON_parse v = Inl e \<longrightarrow>
      e = SyntaxError \<and> hydrateFavorites store = Inl SyntaxError) \<and>
   (store ''gallery_favorites'' = Some v \<and> v \<noteq> [] \<and> JSON_parse v = Inr j \<longrightarrow>
      hydrateFavorites store = new_Set j \<and>
      (new_Set j = Inl TypeError \<longleftrightarrow> (\<exists>b. j = JBool b) \<or> (\<exists>x. j = JNumber x) \<or> (\<exists>ms. j = JObject ms)))"
proof (intro conjI impI)
  assume "store ''gallery_favorites'' = None \<or> store ''gallery_favorites'' = Some []"
  then show "hydrateFavorites store = Inr []" by (rule hydrateFavorites_absent)
next
  assume "store ''gallery_favorites'' = Some (JSON_stringify favs)"
  then show "hydrateFavorites store = Inr (map (\<lambda>x. JString (map of_char x)) favs)"
    by (rule hydrateFavorites_persisted)
next
  assume a: "store ''gallery_favorites'' = Some v \<and> v \<noteq> [] \<and> JSON_parse v = Inl e"
  then show e: "e = SyntaxError"
    by (auto simp: JSON_parse_def split: option.splits)
  from a e show "hydrateFavorites store = Inl SyntaxError"
    by (simp add: hydrateFavorites_stored)
next
  assume a: "store ''gallery_favorites'' = Some v \<and> v \<noteq> [] \<and> JSON_parse v = Inr j"
  then show "hydrateFavorites store = new_Set j"
    by (simp add: hydrateFavorites_stored)
  show "new_Set j = Inl TypeError \<longleftrightarrow>
          (\<exists>b. j = JBool b) \<or> (\<exists>x. j = JNumber x) \<or> (\<exists>ms. j = JObject ms)"
    by (cases j) simp_all
qed

theorem hydrateFavorites_outcomes_witness:
  "hydrateFavorites Map.empty = Inr [] \<and>
   hydrateFavorites [''gallery_favorites'' \<mapsto> JSON_stringify [''3'']] = Inr [JString [51]] \<and>
   hydrateFavorites [''gallery_favorites'' \<mapsto> ''{''] = Inl SyntaxError \<and>
   hydrateFavorites [''gallery_favorites'' \<mapsto> ''5''] = Inl TypeError"
proof -
  have 1: "hydrateFavorites Map.empty = Inr []"
    using hydrateFavorites_outcomes [of Map.empty] by simp
  have 2: "hydrateFavorites [''gallery_favorites'' \<mapsto> JSON_stringify [''3'']] = Inr [JString [51]]"
    using hydrateFavorites_outcomes [of "[''gallery_favorites'' \<mapsto> JSON_stringify [''3'']]" "[''3'']"]
    by simp
  have p3: "JSON_parse ''{'' = Inl SyntaxError"
    by (simp add: JSON_parse_def tokenize.simps is_json_ws_def start_value_def)
  have 3: "hydrateFavorites [''gallery_favorites'' \<mapsto> ''{''] = Inl SyntaxError"
    using hydrateFavorites_outcomes [of "[''gallery_favorites'' \<mapsto> ''{'']" _ "''{''" SyntaxError] p3
    by simp
  have p4: "JSON_parse ''5'' = Inr (JNumber ''5'')"
    by (simp add: JSON_parse_def tokenize.simps is_json_ws_def is_digit_def lex_number_def
          lex_frac_def lex_exp_def start_value_def)
  have 4: "hydrateFavorites [''gallery_favorites'' \<mapsto> ''5''] = Inl TypeError"
    using hydrateFavorites_outcomes [of "[''gallery_favorites'' \<mapsto> ''5'']" _ "''5''" _ "JNumber ''5''"] p4
    by simp
  from 1 2 3 4 show ?thesis by (intro conjI)
qed

end
